theory Spec2Isabelle
  imports Complex_Main "HOL-Library.Char_ord" "HOL-Library.List_Lexorder"
    "HOL-Library.Product_Lexorder" "HOL-Library.Multiset"
begin

chapter \<open>The embedding of the source\<close>

section \<open>Errors\<close>

text \<open>
  Every way the Python source leaves a function other than by returning: \<open>sys.exit()\<close>
  raises \<open>SystemExit\<close>; the others are the interpreter's own exceptions.
\<close>

datatype error =
    SystemExit
  | IndexError
  | UnboundLocalError
  | ZeroDivisionError
  | ValueError
  | AttributeError
  | RuntimeError

section \<open>Data.py: Vocab\<close>

text \<open>
  The five reserved entries of \<open>Vocab.__init__\<close>. \<open>tok_to_idx\<close> is a Python dict; it is
  kept as an association list in insertion order, \<open>idx_to_tok\<close> is a Python list.
\<close>

definition idx_pad :: int where "idx_pad = 0"
definition str_pad :: string where "str_pad = ''<pad>''"
definition idx_unk :: int where "idx_unk = 1"
definition str_unk :: string where "str_unk = ''<unk>''"
definition idx_bos :: int where "idx_bos = 2"
definition str_bos :: string where "str_bos = ''<bos>''"
definition idx_eos :: int where "idx_eos = 3"
definition str_eos :: string where "str_eos = ''<eos>''"
definition idx_sep :: int where "idx_sep = 4"
definition str_sep :: string where "str_sep = ''<sep>''"

record Vocab =
  tok_to_idx :: "(string \<times> int) list"
  idx_to_tok :: "string list"

text \<open>An entry of the vocabulary as \<open>__contains__\<close> and \<open>__getitem__\<close> see it: an int or a string.\<close>

datatype entry = Idx int | Str string

text \<open>Python dict operations on the association list: \<open>k in d\<close>, \<open>d[k]\<close>, \<open>d[k] = v\<close>.\<close>

definition dict_in :: "'k \<Rightarrow> ('k \<times> 'v) list \<Rightarrow> bool" where
  "dict_in k d = (map_of d k \<noteq> None)"

fun dict_set :: "('k \<times> 'v) list \<Rightarrow> 'k \<Rightarrow> 'v \<Rightarrow> ('k \<times> 'v) list" where
  "dict_set [] k v = [(k, v)]"
| "dict_set ((k', v') # d) k v = (if k' = k then (k, v) # d else (k', v') # dict_set d k v)"

text \<open>
  \<open>xs[i]\<close> on a Python list: an index from \<open>-len(xs)\<close> up to \<open>len(xs) - 1\<close> reads an
  element (a negative one counts from the end), any other raises \<open>IndexError\<close>.
\<close>

definition py_index :: "'a list \<Rightarrow> int \<Rightarrow> error + 'a" where
  "py_index xs i =
     (if i < - int (length xs) \<or> int (length xs) \<le> i then Inl IndexError
      else if i < 0 then Inr (xs ! nat (i + int (length xs)))
      else Inr (xs ! nat i))"

definition Vocab_empty :: Vocab where
  "Vocab_empty = \<lparr> tok_to_idx = [], idx_to_tok = [] \<rparr>"

definition Vocab_len :: "Vocab \<Rightarrow> int" where
  "Vocab_len v = int (length (idx_to_tok v))"

fun Vocab_contains :: "Vocab \<Rightarrow> entry \<Rightarrow> bool" where
  "Vocab_contains v (Idx s) = (s \<ge> 0 \<and> s < Vocab_len v)"
| "Vocab_contains v (Str s) = dict_in s (tok_to_idx v)"

text \<open>
  \<open>__getitem__\<close> tests \<open>type(s) == int\<close> first. \<open>Vocab_index\<close> is its branch for a string,
  which returns an index and has no failing path.
\<close>

definition Vocab_index :: "Vocab \<Rightarrow> string \<Rightarrow> int" where
  "Vocab_index v s =
     (if \<not> Vocab_contains v (Str s) then idx_unk
      else (case map_of (tok_to_idx v) s of None \<Rightarrow> idx_unk | Some i \<Rightarrow> i))"

fun Vocab_getitem :: "Vocab \<Rightarrow> entry \<Rightarrow> error + entry" where
  "Vocab_getitem v (Idx s) =
     (if \<not> Vocab_contains v (Idx s) then Inl SystemExit
      else map_sum id Str (py_index (idx_to_tok v) s))"
| "Vocab_getitem v (Str s) = Inr (Idx (Vocab_index v s))"

text \<open>
  \<open>str.rstrip()\<close> on the bytes of a line: the ASCII characters for which \<open>str.isspace\<close>
  holds (tab to carriage return, the four separators 28 to 31, and the space) are removed
  from the right end.
\<close>

definition isspace :: "char \<Rightarrow> bool" where
  "isspace c = (let n = (of_char c :: nat) in (9 \<le> n \<and> n \<le> 13) \<or> (28 \<le> n \<and> n \<le> 32))"

definition rstrip :: "string \<Rightarrow> string" where
  "rstrip s = rev (dropWhile isspace (rev s))"

text \<open>The loop of \<open>Vocab.read\<close> over the lines of the file.\<close>

fun read_loop :: "Vocab \<Rightarrow> string list \<Rightarrow> Vocab" where
  "read_loop v [] = v"
| "read_loop v (l # ls) =
     (let tok = rstrip l in
      if dict_in tok (tok_to_idx v) then read_loop v ls
      else if CHR '' '' \<in> set tok \<or> length tok = 0 then read_loop v ls
      else read_loop
             (v\<lparr> idx_to_tok := idx_to_tok v @ [tok],
                 tok_to_idx := dict_set (tok_to_idx v) tok (int (length (tok_to_idx v))) \<rparr>) ls)"

text \<open>One of the five reserved-slot checks that end \<open>Vocab.read\<close>.\<close>

definition check_reserved :: "Vocab \<Rightarrow> int \<Rightarrow> string \<Rightarrow> error + unit" where
  "check_reserved v i s =
     (case py_index (idx_to_tok v) i of
        Inl e \<Rightarrow> Inl e
      | Inr t \<Rightarrow> if t \<noteq> s then Inl SystemExit else Inr ())"

text \<open>
  \<open>Vocab.read(file)\<close> on a fresh vocabulary. The file is \<open>None\<close> when the path does not
  exist, and its list of lines otherwise.
\<close>

definition Vocab_read :: "Vocab \<Rightarrow> string list option \<Rightarrow> error + Vocab" where
  "Vocab_read v0 file =
     (case file of
        None \<Rightarrow> Inl SystemExit
      | Some ls \<Rightarrow>
          (let v = read_loop v0 ls in
           case check_reserved v idx_pad str_pad of Inl e \<Rightarrow> Inl e | Inr _ \<Rightarrow>
           case check_reserved v idx_unk str_unk of Inl e \<Rightarrow> Inl e | Inr _ \<Rightarrow>
           case check_reserved v idx_bos str_bos of Inl e \<Rightarrow> Inl e | Inr _ \<Rightarrow>
           case check_reserved v idx_eos str_eos of Inl e \<Rightarrow> Inl e | Inr _ \<Rightarrow>
           case check_reserved v idx_sep str_sep of Inl e \<Rightarrow> Inl e | Inr _ \<Rightarrow>
           Inr v))"

text \<open>
  \<open>Vocab(file)\<close>: with no file argument the vocabulary stays empty, otherwise it is read.
\<close>

definition Vocab_init :: "string list option option \<Rightarrow> error + Vocab" where
  "Vocab_init file =
     (case file of
        None \<Rightarrow> Inr Vocab_empty
      | Some f \<Rightarrow> Vocab_read Vocab_empty f)"

text \<open>
  The invariant that ties the two tables of a vocabulary: the dict lists the tokens of the
  list in order, each with its position.
\<close>

definition vocab_inv :: "Vocab \<Rightarrow> bool" where
  "vocab_inv v =
     (map fst (tok_to_idx v) = idx_to_tok v \<and>
      map snd (tok_to_idx v) = map int [0..<length (idx_to_tok v)] \<and>
      distinct (idx_to_tok v))"

subsection \<open>A vocabulary file used in the examples\<close>

text \<open>
  Seven entries, one of them repeated and one with an inner space (both skipped by
  \<open>Vocab.read\<close>); every line but the last ends with a newline.
\<close>

definition ex_vocab_file :: "string list" where
  "ex_vocab_file =
     [''<pad>'' @ [CHR 0x0A], ''<unk>'' @ [CHR 0x0A], ''<bos>'' @ [CHR 0x0A],
      ''<eos>'' @ [CHR 0x0A], ''<sep>'' @ [CHR 0x0A], ''a'' @ [CHR 0x0A],
      ''a'' @ [CHR 0x0A], ''b c'' @ [CHR 0x0A], ''b'']"

definition ex_vocab :: Vocab where
  "ex_vocab =
     \<lparr> tok_to_idx = [(''<pad>'', 0), (''<unk>'', 1), (''<bos>'', 2), (''<eos>'', 3),
                       (''<sep>'', 4), (''a'', 5), (''b'', 6)],
       idx_to_tok = [''<pad>'', ''<unk>'', ''<bos>'', ''<eos>'', ''<sep>'', ''a'', ''b''] \<rparr>"

section \<open>Data.py: Vocab.build\<close>

text \<open>
  \<open>Vocab.build\<close> reads standard input through the external tokenizer; its input here is
  the token list of every line, in order. \<open>tok_to_frq\<close> is a \<open>defaultdict(int)\<close>: an
  absent token starts at 0, and a dict keeps its keys in insertion order. Its output is the
  list of lines it prints.
\<close>

text \<open>\<open>tok_to_frq[tok] += 1\<close>.\<close>

fun count_tok :: "(string \<times> int) list \<Rightarrow> string \<Rightarrow> (string \<times> int) list" where
  "count_tok [] tok = [(tok, 0 + 1)]"
| "count_tok ((k, c) # d) tok = (if k = tok then (k, c + 1) # d else (k, c) # count_tok d tok)"

definition tok_to_frq :: "string list list \<Rightarrow> (string \<times> int) list" where
  "tok_to_frq lines = foldl count_tok [] (concat lines)"

text \<open>
  \<open>sorted(tok_to_frq.items(), key=lambda item: item[1], reverse=True)\<close>: Python's sort is
  stable also with \<open>reverse=True\<close>, so this is the stable sort by descending frequency.
\<close>

definition sorted_items :: "(string \<times> int) list \<Rightarrow> (string \<times> int) list" where
  "sorted_items items = sort_key (\<lambda>item. - snd item) items"

text \<open>The printing loop: \<open>n\<close> counts the lines printed so far and starts at 5.\<close>

fun build_loop :: "int \<Rightarrow> int \<Rightarrow> int \<Rightarrow> (string \<times> int) list \<Rightarrow> string list" where
  "build_loop n min_freq max_size [] = []"
| "build_loop n min_freq max_size ((tok, frq) # rest) =
     (if n = max_size \<or> frq < min_freq then []
      else tok # build_loop (n + 1) min_freq max_size rest)"

definition Vocab_build :: "string list list \<Rightarrow> int \<Rightarrow> int \<Rightarrow> string list" where
  "Vocab_build lines min_freq max_size =
     [str_pad, str_unk, str_bos, str_eos, str_sep]
       @ build_loop 5 min_freq max_size (sorted_items (tok_to_frq lines))"

text \<open>Two notions used to state what \<open>tok_to_frq\<close> holds: the count stored for a token
  (0 when absent), and the tokens in order of first appearance.\<close>

definition freq_of :: "(string \<times> int) list \<Rightarrow> string \<Rightarrow> int" where
  "freq_of d t = (case map_of d t of None \<Rightarrow> 0 | Some c \<Rightarrow> c)"

fun first_seen :: "string list \<Rightarrow> string list \<Rightarrow> string list" where
  "first_seen seen [] = seen"
| "first_seen seen (t # ts) = (if t \<in> set seen then first_seen seen ts else first_seen (seen @ [t]) ts)"

section \<open>Learning.py: prepare_input\<close>

text \<open>
  Tensors are nested lists: a batch of index sequences is an \<open>int list list\<close>, a mask a
  \<open>bool list list list\<close>. The device argument has no effect on the values and is left out.
  The parameter \<open>idx_pad\<close> of \<open>prepare_input\<close> is written \<open>idx_pad'\<close>, the plain name being
  the constant of the vocabulary.

  \<open>torch.nn.utils.rnn.pad_sequence(sequences, batch_first=True, padding_value)\<close> pads every
  sequence on the right to the length of the longest one; it raises on an empty list.
\<close>

definition max_len_of :: "int list list \<Rightarrow> nat" where
  "max_len_of sequences = fold max (map length sequences) 0"

definition pad_sequence :: "int list list \<Rightarrow> int \<Rightarrow> error + int list list" where
  "pad_sequence sequences padding_value =
     (if sequences = [] then Inl RuntimeError
      else let max_len = max_len_of sequences
           in Inr (map (\<lambda>s. s @ replicate (max_len - length s) padding_value) sequences))"

text \<open>\<open>t.size(1)\<close> of a two-dimensional tensor with at least one row.\<close>

definition size1 :: "'a list list \<Rightarrow> nat" where
  "size1 t = (case t of [] \<Rightarrow> 0 | row # _ \<Rightarrow> length row)"

text \<open>\<open>t != v\<close> elementwise, and \<open>unsqueeze(-2)\<close> from \<open>[bs, l]\<close> to \<open>[bs, 1, l]\<close>.\<close>

definition ne_scalar :: "int list list \<Rightarrow> int \<Rightarrow> bool list list" where
  "ne_scalar t v = map (map (\<lambda>x. x \<noteq> v)) t"

definition unsqueeze_m2 :: "'a list list \<Rightarrow> 'a list list list" where
  "unsqueeze_m2 t = map (\<lambda>row. [row]) t"

text \<open>
  \<open>torch.triu(torch.ones((1, n, n)), diagonal=1)\<close> keeps the entries with \<open>j - i \<ge> 1\<close>;
  \<open>(1 - ...).bool()\<close> is true where the difference is not zero. The leading dimension of
  size 1 is the one the broadcast below runs over.
\<close>

definition triu_ones :: "nat \<Rightarrow> int list list" where
  "triu_ones n = map (\<lambda>i. map (\<lambda>j. if int j - int i \<ge> 1 then 1 else 0) [0..<n]) [0..<n]"

definition causal :: "nat \<Rightarrow> bool list list" where
  "causal n = map (map (\<lambda>x. 1 - x \<noteq> (0::int))) (triu_ones n)"

text \<open>
  \<open>a & c\<close> with \<open>a\<close> of shape \<open>[bs, 1, n]\<close> and \<open>c\<close> of shape \<open>[1, n, n]\<close>, broadcast to
  \<open>[bs, n, n]\<close>: entry \<open>(b, i, j)\<close> is \<open>a[b, 0, j] & c[0, i, j]\<close>.
\<close>

definition and_broadcast :: "bool list list list \<Rightarrow> bool list list \<Rightarrow> bool list list list" where
  "and_broadcast a c = map (\<lambda>m. map (\<lambda>crow. map2 (\<and>) (hd m) crow) c) a"

text \<open>The value returned: \<open>(src, None, None)\<close> without targets, the five tensors with them.\<close>

datatype prepared =
    Prepared3 "int list list"
  | Prepared5 "int list list" "int list list" "int list list" "bool list list list" "bool list list list"

definition prepare_input :: "int list list \<Rightarrow> int list list option \<Rightarrow> int \<Rightarrow> error + prepared" where
  "prepare_input batch_src batch_tgt idx_pad' =
     (case pad_sequence batch_src idx_pad' of Inl e \<Rightarrow> Inl e | Inr src \<Rightarrow>
      case batch_tgt of None \<Rightarrow> Inr (Prepared3 src) | Some bt \<Rightarrow>
      case pad_sequence (map butlast bt) idx_pad' of Inl e \<Rightarrow> Inl e | Inr tgt \<Rightarrow>
      case pad_sequence (map tl bt) idx_pad' of Inl e \<Rightarrow> Inl e | Inr ref \<Rightarrow>
      let msk_src = unsqueeze_m2 (ne_scalar src idx_pad');
          msk_tgt = and_broadcast (unsqueeze_m2 (ne_scalar tgt idx_pad')) (causal (size1 tgt))
      in Inr (Prepared5 src tgt ref msk_src msk_tgt))"

subsection \<open>A batch used in the examples\<close>

definition ex_batch_src :: "int list list" where
  "ex_batch_src = [[2, 5, 6, 3], [2, 5, 3]]"

definition ex_batch_tgt :: "int list list" where
  "ex_batch_tgt = [[2, 6, 5, 3], [2, 7, 3]]"

definition ex_prepared :: prepared where
  "ex_prepared =
     Prepared5 [[2, 5, 6, 3], [2, 5, 3, 0]] [[2, 6, 5], [2, 7, 0]] [[6, 5, 3], [7, 3, 0]]
       [[[True, True, True, True]], [[True, True, True, False]]]
       [[[True, False, False], [True, True, False], [True, True, True]],
        [[True, False, False], [True, True, False], [True, True, False]]]"

section \<open>Model.py: checkpoints\<close>

text \<open>
  The directory is a dict from the path of a regular file, as it is spelled, to the content
  of the file; the content of a checkpoint file (step, model state, optimizer state) is kept
  abstract. \<open>"{:08d}".format(step)\<close> writes the
  decimal digits of \<open>step\<close>, padded with zeros on the left to at least eight characters, the
  sign included.
\<close>

fun decimal :: "nat \<Rightarrow> string" where
  "decimal n = (if n < 10 then [char_of (48 + n)] else decimal (n div 10) @ [char_of (48 + n mod 10)])"

declare decimal.simps [simp del]



























text \<open>
  Used to state the file name: the \<open>n\<close> low decimal digits of a number, what a decimal digit
  is, and the number a digit string denotes.
\<close>

fun fixed_width :: "nat \<Rightarrow> nat \<Rightarrow> string" where
  "fixed_width 0 k = []"
| "fixed_width (Suc n) k = fixed_width n (k div 10) @ [char_of (48 + k mod 10)]"



section \<open>Data.py: Dataset\<close>

text \<open>
  The tokenizers are external: each is a function from a line to its tokens. The two text
  files are given by their lines. The two calls of \<open>np.random.shuffle\<close> are functions
  handed to the constructor, one for the examples and one for the batches. A row of
  \<open>idata\<close> is \<open>(pos, len_src, len_tgt)\<close>, an entry of a batch \<open>(pos, src, tgt)\<close>, and
  \<open>ldata\<close> holds the pair of encoded sequences of every line.
\<close>

type_synonym tokenizer = "string \<Rightarrow> string list"
type_synonym example = "nat \<times> nat \<times> nat"
type_synonym triple = "nat \<times> int list \<times> int list"

text \<open>One line of either file: the indices of its tokens between \<open>idx_bos\<close> and \<open>idx_eos\<close>.\<close>

definition encode_line :: "Vocab \<Rightarrow> tokenizer \<Rightarrow> string \<Rightarrow> int list" where
  "encode_line vocab token l = idx_bos # map (Vocab_index vocab) (token l) @ [idx_eos]"

definition count_tokens :: "tokenizer \<Rightarrow> string list \<Rightarrow> nat" where
  "count_tokens token lines = sum_list (map (\<lambda>l. length (token l)) lines)"

text \<open>
  The loop over the source file and the \<open>logging.info\<close> call after it. The call reads the
  loop variable \<open>i\<close>, which is unbound when the file has no line, and then divides by
  \<open>ntokens\<close>.
\<close>

definition read_src :: "Vocab \<Rightarrow> tokenizer \<Rightarrow> string list \<Rightarrow> error + int list list" where
  "read_src vocab token lines =
     (let ldata = map (encode_line vocab token) lines;
          ntokens = count_tokens token lines
      in if lines = [] then Inl UnboundLocalError
         else if ntokens = 0 then Inl ZeroDivisionError
         else Inr ldata)"

text \<open>
  The loop over the target file: \<open>n\<close> is \<open>len(idata)\<close>, and line \<open>i\<close> exits when
  \<open>i >= len(idata)\<close>.
\<close>

fun read_tgt_loop :: "Vocab \<Rightarrow> tokenizer \<Rightarrow> nat \<Rightarrow> nat \<Rightarrow> string list \<Rightarrow> error + int list list" where
  "read_tgt_loop vocab token n i [] = Inr []"
| "read_tgt_loop vocab token n i (l # ls) =
     (if i \<ge> n then Inl SystemExit
      else case read_tgt_loop vocab token n (i + 1) ls of
             Inl e \<Rightarrow> Inl e
           | Inr rest \<Rightarrow> Inr (encode_line vocab token l # rest))"

text \<open>
  After the loop \<open>i\<close> is the index of the last target line, or still the value the source
  loop left (\<open>n - 1\<close>) when the target file has no line; then the same \<open>logging.info\<close>
  call divides by \<open>ntokens\<close>.
\<close>

definition read_tgt :: "Vocab \<Rightarrow> tokenizer \<Rightarrow> nat \<Rightarrow> string list \<Rightarrow> error + int list list" where
  "read_tgt vocab token n lines =
     (case read_tgt_loop vocab token n 0 lines of
        Inl e \<Rightarrow> Inl e
      | Inr tgts \<Rightarrow>
          (let i = (if lines = [] then int n - 1 else int (length lines) - 1);
               ntokens = count_tokens token lines
           in if i \<noteq> int n - 1 then Inl SystemExit
              else if ntokens = 0 then Inl ZeroDivisionError
              else Inr tgts))"

text \<open>\<open>range(0, n, step)\<close>: a zero step raises \<open>ValueError\<close>, a negative one gives nothing.\<close>

definition py_range :: "nat \<Rightarrow> int \<Rightarrow> error + nat list" where
  "py_range n step =
     (if step = 0 then Inl ValueError
      else if step < 0 then Inr []
      else Inr (map (\<lambda>k. k * nat step) [0..<(n + nat step - 1) div nat step]))"

text \<open>\<open>[xs[i : min(len(xs), i + n)] for i in range(0, len(xs), n)]\<close>.\<close>

definition slices :: "'a list \<Rightarrow> int \<Rightarrow> error + 'a list list" where
  "slices xs n =
     (case py_range (length xs) n of
        Inl e \<Rightarrow> Inl e
      | Inr starts \<Rightarrow>
          Inr (map (\<lambda>i. take (min (length xs) (i + nat n) - i) (drop i xs)) starts))"

text \<open>\<open>sorted(shard, key = operator.itemgetter(1, 2))\<close>, a stable sort on the two lengths.\<close>

definition sort_shard :: "example list \<Rightarrow> example list" where
  "sort_shard shard = sort_key (\<lambda>(pos, src_len, tgt_len). (src_len, tgt_len)) shard"

text \<open>\<open>max\<close> of a sequence raises \<open>ValueError\<close> on an empty one.\<close>

definition py_max :: "nat list \<Rightarrow> error + nat" where
  "py_max xs = (case xs of [] \<Rightarrow> Inl ValueError | x # rest \<Rightarrow> Inr (fold max rest x))"

text \<open>The loop of \<open>build_batch\<close> over the examples, and \<open>build_batch\<close> itself.\<close>

fun build_rows :: "example list \<Rightarrow> (int list \<times> int list) list \<Rightarrow> int \<Rightarrow> int \<Rightarrow> nat \<Rightarrow> nat
    \<Rightarrow> error + triple list" where
  "build_rows [] ldata src_idx_pad tgt_idx_pad max_src_len max_tgt_len = Inr []"
| "build_rows ((pos, src_len, tgt_len) # rest) ldata src_idx_pad tgt_idx_pad max_src_len max_tgt_len =
     (case py_index ldata (int pos) of
        Inl e \<Rightarrow> Inl e
      | Inr pair \<Rightarrow>
          (let src = fst pair @ replicate (max_src_len - src_len) src_idx_pad;
               tgt = snd pair @ replicate (max_tgt_len - tgt_len) tgt_idx_pad
           in case build_rows rest ldata src_idx_pad tgt_idx_pad max_src_len max_tgt_len of
                Inl e \<Rightarrow> Inl e
              | Inr batch \<Rightarrow> Inr ((pos, src, tgt) # batch)))"

definition build_batch :: "example list \<Rightarrow> (int list \<times> int list) list \<Rightarrow> int \<Rightarrow> int
    \<Rightarrow> error + triple list" where
  "build_batch shard_batch ldata src_idx_pad tgt_idx_pad =
     (case py_max (map (\<lambda>(pos, src_len, tgt_len). src_len) shard_batch) of
        Inl e \<Rightarrow> Inl e
      | Inr max_src_len \<Rightarrow>
     (case py_max (map (\<lambda>(pos, src_len, tgt_len). tgt_len) shard_batch) of
        Inl e \<Rightarrow> Inl e
      | Inr max_tgt_len \<Rightarrow>
          build_rows shard_batch ldata src_idx_pad tgt_idx_pad max_src_len max_tgt_len))"

text \<open>The inner and the outer loop of the section "build batches".\<close>

fun build_shard_batches :: "example list list \<Rightarrow> (int list \<times> int list) list \<Rightarrow> int \<Rightarrow> int
    \<Rightarrow> error + triple list list" where
  "build_shard_batches [] ldata src_idx_pad tgt_idx_pad = Inr []"
| "build_shard_batches (shard_batch # rest) ldata src_idx_pad tgt_idx_pad =
     (case build_batch shard_batch ldata src_idx_pad tgt_idx_pad of
        Inl e \<Rightarrow> Inl e
      | Inr batch \<Rightarrow>
          (case build_shard_batches rest ldata src_idx_pad tgt_idx_pad of
             Inl e \<Rightarrow> Inl e
           | Inr batches \<Rightarrow> Inr (batch # batches)))"

fun build_batches :: "example list list \<Rightarrow> int \<Rightarrow> (int list \<times> int list) list \<Rightarrow> int \<Rightarrow> int
    \<Rightarrow> error + triple list list" where
  "build_batches [] batch_size ldata src_idx_pad tgt_idx_pad = Inr []"
| "build_batches (shard # shards) batch_size ldata src_idx_pad tgt_idx_pad =
     (case slices shard batch_size of
        Inl e \<Rightarrow> Inl e
      | Inr groups \<Rightarrow>
     (case build_shard_batches groups ldata src_idx_pad tgt_idx_pad of
        Inl e \<Rightarrow> Inl e
      | Inr bs \<Rightarrow>
     (case build_batches shards batch_size ldata src_idx_pad tgt_idx_pad of
        Inl e \<Rightarrow> Inl e
      | Inr rest \<Rightarrow> Inr (bs @ rest))))"

text \<open>
  From "shuffle idata" to "shuffle batches": \<open>idata\<close> is rebuilt here from \<open>ldata\<close>, row
  \<open>i\<close> holding the two lengths of line \<open>i\<close>. Both vocabularies have the pad index
  \<open>idx_pad\<close>. The batches stay a list; \<open>np.asarray\<close> is taken to keep them as they are.
\<close>

definition make_batches ::
  "(int list \<times> int list) list \<Rightarrow> int \<Rightarrow> int
     \<Rightarrow> (example list \<Rightarrow> example list) \<Rightarrow> (triple list list \<Rightarrow> triple list list)
     \<Rightarrow> error + triple list list" where
  "make_batches ldata shard_size batch_size shuffle_idata shuffle_batches =
     (let idata = map (\<lambda>(i, (src, tgt)). (i, length src, length tgt)) (enumerate 0 ldata);
          idata = shuffle_idata idata;
          shard_size = (if shard_size = 0 then int (length idata) else shard_size)
      in case slices idata shard_size of Inl e \<Rightarrow> Inl e | Inr shards \<Rightarrow>
         case build_batches (map sort_shard shards) batch_size ldata idx_pad idx_pad of
           Inl e \<Rightarrow> Inl e
         | Inr batches \<Rightarrow> Inr (shuffle_batches batches))"

text \<open>
  \<open>Dataset.__init__\<close>. \<open>ofile\<close> is \<open>Some\<close> of the cached batches when a path is given and
  the file exists; writing the cache at the end is left out.
\<close>

definition Dataset_init ::
  "triple list list option \<Rightarrow> string list option \<Rightarrow> string list option \<Rightarrow> tokenizer \<Rightarrow> tokenizer
     \<Rightarrow> string list \<Rightarrow> string list \<Rightarrow> int \<Rightarrow> int
     \<Rightarrow> (example list \<Rightarrow> example list) \<Rightarrow> (triple list list \<Rightarrow> triple list list)
     \<Rightarrow> error + triple list list" where
  "Dataset_init ofile fvocab_src fvocab_tgt ftoken_src ftoken_tgt ftxt_src ftxt_tgt
       shard_size batch_size shuffle_idata shuffle_batches =
     (case ofile of Some batches \<Rightarrow> Inr batches | None \<Rightarrow>
      case Vocab_init (Some fvocab_src) of Inl e \<Rightarrow> Inl e | Inr vocab_src \<Rightarrow>
      case read_src vocab_src ftoken_src ftxt_src of Inl e \<Rightarrow> Inl e | Inr srcs \<Rightarrow>
      case Vocab_init (Some fvocab_tgt) of Inl e \<Rightarrow> Inl e | Inr vocab_tgt \<Rightarrow>
      case read_tgt vocab_tgt ftoken_tgt (length srcs) ftxt_tgt of Inl e \<Rightarrow> Inl e | Inr tgts \<Rightarrow>
      make_batches (zip srcs tgts) shard_size batch_size shuffle_idata shuffle_batches)"

text \<open>
  Used to state the batch invariant: the entry \<open>build_batch\<close> makes of one row, and a row
  that records the true lengths of its line.
\<close>

definition pad_row :: "(int list \<times> int list) list \<Rightarrow> int \<Rightarrow> int \<Rightarrow> nat \<Rightarrow> nat \<Rightarrow> example \<Rightarrow> triple" where
  "pad_row ldata sp tp ms mt ex =
     (case ex of (pos, src_len, tgt_len) \<Rightarrow>
        (pos, fst (ldata ! pos) @ replicate (ms - src_len) sp,
              snd (ldata ! pos) @ replicate (mt - tgt_len) tp))"

definition row_ok :: "(int list \<times> int list) list \<Rightarrow> example \<Rightarrow> bool" where
  "row_ok ldata ex =
     (fst ex < length ldata
      \<and> fst (snd ex) = length (fst (ldata ! fst ex))
      \<and> snd (snd ex) = length (snd (ldata ! fst ex)))"

subsection \<open>A tokenizer and a corpus used in the examples\<close>

text \<open>Splitting at white space, as the tokenizer does in its default mode \<open>space\<close>.\<close>

fun space_split :: "string \<Rightarrow> string \<Rightarrow> string list" where
  "space_split cur [] = (if cur = [] then [] else [cur])"
| "space_split cur (c # cs) =
     (if isspace c then (if cur = [] then space_split [] cs else cur # space_split [] cs)
      else space_split (cur @ [c]) cs)"

definition space_tokenize :: tokenizer where
  "space_tokenize l = space_split [] l"

definition ex_src_lines :: "string list" where
  "ex_src_lines = [''a b'' @ [CHR 0x0A], ''a'' @ [CHR 0x0A], ''b b b c'' @ [CHR 0x0A]]"

definition ex_tgt_lines :: "string list" where
  "ex_tgt_lines = [''b a'' @ [CHR 0x0A], ''b'' @ [CHR 0x0A], ''a a a'' @ [CHR 0x0A]]"

definition ex_batches :: "triple list list" where
  "ex_batches =
     [[(2, [2, 6, 6, 6, 1, 3], [2, 5, 5, 5, 3])],
      [(1, [2, 5, 3, 0], [2, 6, 3, 0]), (0, [2, 5, 6, 3], [2, 6, 5, 3])]]"

section \<open>Model.py: the decoder layer\<close>

text \<open>
  A module is a record of its submodules and settings. A parameter tensor is known by a
  number: every \<open>torch.nn.Linear\<close> and \<open>torch.nn.LayerNorm\<close> that a constructor creates
  takes two fresh numbers (weight and bias) from a counter that the constructors thread
  along, so two modules created by different calls never share a parameter.
\<close>

record Linear =
  weight :: nat
  bias :: nat
  in_features :: nat
  out_features :: nat

record LayerNorm =
  ln_weight :: nat
  ln_bias :: nat
  normalized_shape :: nat
  eps :: real

record MultiHead_Attn =
  nh :: nat
  ed :: nat
  qd :: nat
  kd :: nat
  vd :: nat
  WQ :: Linear
  WK :: Linear
  WV :: Linear
  WO :: Linear
  att_dropout :: real

record FeedForward =
  FF_in :: Linear
  FF_out :: Linear
  ff_dropout :: real

record Decoder =
  feedforward :: FeedForward
  multihead_attn :: MultiHead_Attn
  norm_att1 :: LayerNorm
  norm_att2 :: LayerNorm
  norm_ff :: LayerNorm

definition Linear_init :: "nat \<Rightarrow> nat \<Rightarrow> nat \<Rightarrow> Linear \<times> nat" where
  "Linear_init i o' fresh =
     (\<lparr> weight = fresh, bias = fresh + 1, in_features = i, out_features = o' \<rparr>, fresh + 2)"

definition LayerNorm_init :: "nat \<Rightarrow> real \<Rightarrow> nat \<Rightarrow> LayerNorm \<times> nat" where
  "LayerNorm_init n e fresh =
     (\<lparr> ln_weight = fresh, ln_bias = fresh + 1, normalized_shape = n, eps = e \<rparr>, fresh + 2)"

definition FeedForward_init :: "nat \<Rightarrow> nat \<Rightarrow> real \<Rightarrow> nat \<Rightarrow> FeedForward \<times> nat" where
  "FeedForward_init emb_dim ff_dim dropout fresh =
     (let (l1, fresh) = Linear_init emb_dim ff_dim fresh;
          (l2, fresh) = Linear_init ff_dim emb_dim fresh
      in (\<lparr> FF_in = l1, FF_out = l2, ff_dropout = dropout \<rparr>, fresh))"

definition MultiHead_Attn_init ::
  "nat \<Rightarrow> nat \<Rightarrow> nat \<Rightarrow> nat \<Rightarrow> real \<Rightarrow> nat \<Rightarrow> MultiHead_Attn \<times> nat" where
  "MultiHead_Attn_init n_heads emb_dim qk_dim v_dim dropout fresh =
     (let (wq, fresh) = Linear_init emb_dim (qk_dim * n_heads) fresh;
          (wk, fresh) = Linear_init emb_dim (qk_dim * n_heads) fresh;
          (wv, fresh) = Linear_init emb_dim (v_dim * n_heads) fresh;
          (wo, fresh) = Linear_init (v_dim * n_heads) emb_dim fresh
      in (\<lparr> nh = n_heads, ed = emb_dim, qd = qk_dim, kd = qk_dim, vd = v_dim,
             WQ = wq, WK = wk, WV = wv, WO = wo, att_dropout = dropout \<rparr>, fresh))"

definition Decoder_init ::
  "nat \<Rightarrow> nat \<Rightarrow> nat \<Rightarrow> nat \<Rightarrow> nat \<Rightarrow> real \<Rightarrow> nat \<Rightarrow> Decoder \<times> nat" where
  "Decoder_init ff_dim n_heads emb_dim qk_dim v_dim dropout fresh =
     (let (ff, fresh) = FeedForward_init emb_dim ff_dim dropout fresh;
          (att, fresh) = MultiHead_Attn_init n_heads emb_dim qk_dim v_dim dropout fresh;
          (n1, fresh) = LayerNorm_init emb_dim (1 / 10 ^ 6) fresh;
          (n2, fresh) = LayerNorm_init emb_dim (1 / 10 ^ 6) fresh;
          (n3, fresh) = LayerNorm_init emb_dim (1 / 10 ^ 6) fresh
      in (\<lparr> feedforward = ff, multihead_attn = att, norm_att1 = n1, norm_att2 = n2,
             norm_ff = n3 \<rparr>, fresh))"

text \<open>
  The forward pass of a layer is followed symbolically: a tensor is an input or the result
  of a submodule applied to tensors, and every call of the attention module is appended to
  a log with the module called and its arguments.
\<close>

datatype tensor =
    Input string
  | Norm LayerNorm tensor
  | Attn MultiHead_Attn tensor tensor tensor tensor
  | FF FeedForward tensor
  | Plus tensor tensor

record attn_call =
  called :: MultiHead_Attn
  arg_q :: tensor
  arg_k :: tensor
  arg_v :: tensor
  arg_msk :: tensor

definition MultiHead_Attn_call ::
  "MultiHead_Attn \<Rightarrow> tensor \<Rightarrow> tensor \<Rightarrow> tensor \<Rightarrow> tensor \<Rightarrow> attn_call list
     \<Rightarrow> tensor \<times> attn_call list" where
  "MultiHead_Attn_call m q k v msk calls =
     (Attn m q k v msk,
      calls @ [\<lparr> called = m, arg_q = q, arg_k = k, arg_v = v, arg_msk = msk \<rparr>])"

definition Decoder_forward ::
  "Decoder \<Rightarrow> tensor \<Rightarrow> tensor \<Rightarrow> tensor \<Rightarrow> tensor \<Rightarrow> attn_call list \<Rightarrow> tensor \<times> attn_call list" where
  "Decoder_forward self z_src tgt msk_src msk_tgt calls =
     (let tgt_norm = Norm (norm_att1 self) tgt;
          (att, calls) = MultiHead_Attn_call (multihead_attn self) tgt_norm tgt_norm tgt_norm msk_tgt calls;
          tmp = Plus att tgt;
          tmp_norm = Norm (norm_att2 self) tmp;
          (att, calls) = MultiHead_Attn_call (multihead_attn self) tmp_norm z_src z_src msk_src calls;
          tmp = Plus att tmp;
          tmp_norm = Norm (norm_ff self) tmp;
          z = Plus (FF (feedforward self) tmp_norm) tmp
      in (z, calls))"

text \<open>\<open>parameters()\<close> of a module: the parameter tensors of its submodules, in order.\<close>

fun parameters_Linear :: "Linear \<Rightarrow> nat list" where
  "parameters_Linear l = [weight l, bias l]"

definition parameters_MultiHead_Attn :: "MultiHead_Attn \<Rightarrow> nat list" where
  "parameters_MultiHead_Attn m =
     parameters_Linear (WQ m) @ parameters_Linear (WK m) @ parameters_Linear (WV m)
       @ parameters_Linear (WO m)"

definition parameters_Decoder :: "Decoder \<Rightarrow> nat list" where
  "parameters_Decoder d =
     parameters_Linear (FF_in (feedforward d)) @ parameters_Linear (FF_out (feedforward d))
       @ parameters_MultiHead_Attn (multihead_attn d)
       @ [ln_weight (norm_att1 d), ln_bias (norm_att1 d)]
       @ [ln_weight (norm_att2 d), ln_bias (norm_att2 d)]
       @ [ln_weight (norm_ff d), ln_bias (norm_ff d)]"

section \<open>Model.py: AddPositionalEncoding\<close>

text \<open>
  \<open>AddPositionalEncoding\<close>. Floating-point numbers are read as reals: what is followed is
  which row of the table is added where, not rounding. \<open>div_term\<close> and \<open>pe_entry\<close> are the
  entries the constructor writes with \<open>pe[:, 0::2] = sin(...)\<close> and
  \<open>pe[:, 1::2] = cos(...)\<close>; with an odd \<open>emb_dim\<close> the second assignment has one column
  too many and raises. The buffer has the shape \<open>[max_len, 1, emb_dim]\<close> after
  \<open>unsqueeze(0).transpose(0, 1)\<close>.
\<close>

definition div_term :: "nat \<Rightarrow> nat \<Rightarrow> real" where
  "div_term emb_dim i = exp (real (2 * i) * (- ln 10000 / real emb_dim))"

definition pe_entry :: "nat \<Rightarrow> nat \<Rightarrow> nat \<Rightarrow> real" where
  "pe_entry emb_dim pos d =
     (if even d then sin (real pos * div_term emb_dim (d div 2))
      else cos (real pos * div_term emb_dim (d div 2)))"

definition AddPositionalEncoding_init :: "nat \<Rightarrow> nat \<Rightarrow> error + real list list list" where
  "AddPositionalEncoding_init emb_dim max_len =
     (if emb_dim = 0 then Inl ZeroDivisionError
      else if odd emb_dim then Inl RuntimeError
      else Inr (map (\<lambda>pos. [map (pe_entry emb_dim pos) [0..<emb_dim]]) [0..<max_len]))"

text \<open>
  Broadcasting of \<open>x + y\<close> along one dimension: equal sizes go elementwise, a size of 1 is
  repeated, anything else raises. \<open>add3\<close> is the sum of two tensors of three dimensions.
\<close>

fun collect :: "(error + 'a) list \<Rightarrow> error + 'a list" where
  "collect [] = Inr []"
| "collect (r # rs) =
     (case r of
        Inl e \<Rightarrow> Inl e
      | Inr v \<Rightarrow> (case collect rs of Inl e \<Rightarrow> Inl e | Inr vs \<Rightarrow> Inr (v # vs)))"

definition broadcast :: "('a \<Rightarrow> 'b \<Rightarrow> error + 'c) \<Rightarrow> 'a list \<Rightarrow> 'b list \<Rightarrow> error + 'c list" where
  "broadcast f a b =
     (if length a = length b then collect (map2 f a b)
      else if length a = 1 then collect (map (f (hd a)) b)
      else if length b = 1 then collect (map (\<lambda>u. f u (hd b)) a)
      else Inl RuntimeError)"

definition add3 :: "real list list list \<Rightarrow> real list list list \<Rightarrow> error + real list list list" where
  "add3 x y = broadcast (broadcast (broadcast (\<lambda>u v. Inr (u + v)))) x y"

text \<open>
  \<open>forward\<close>: \<open>x + self.pe[:x.size(0), :]\<close>, then dropout, which is a function here (the
  identity in evaluation mode).
\<close>

definition AddPositionalEncoding_forward ::
  "real list list list \<Rightarrow> (real list list list \<Rightarrow> real list list list) \<Rightarrow> real list list list
     \<Rightarrow> error + real list list list" where
  "AddPositionalEncoding_forward pe dropout x =
     (case add3 x (take (length x) pe) of
        Inl e \<Rightarrow> Inl e
      | Inr x \<Rightarrow> Inr (dropout x))"

section \<open>Learning.py: the training loop\<close>

text \<open>
  The control flow of \<open>Learning.learn\<close>. The training set is the number of its batches, the
  validation set is present or \<open>None\<close>, and what the loop does to the outside is logged as
  events: a validation pass and a checkpoint save, each with the step counter. The forward
  and backward pass and the report branch change neither the counter nor the events.
\<close>

record Learning =
  max_steps :: int
  max_epochs :: int
  validate_every :: int
  save_every :: int
  report_every :: int
  keep_last_n :: int

text \<open>
  The attributes \<open>__init__\<close> assigns. Reading any other attribute of the object raises
  \<open>AttributeError\<close>.
\<close>

definition Learning_attributes :: "string list" where
  "Learning_attributes =
     [''model'', ''optScheduler'', ''criter'', ''suffix'', ''max_steps'', ''max_epochs'',
      ''validate_every'', ''save_every'', ''report_every'', ''keep_last_n'', ''clip_grad_norm'']"

definition getattr :: "string \<Rightarrow> error + unit" where
  "getattr name = (if name \<in> set Learning_attributes then Inr () else Inl AttributeError)"

datatype event = Validated int | Saved int

datatype outcome = Returned | Raised error

definition validate :: "bool \<Rightarrow> int \<Rightarrow> event list \<Rightarrow> event list" where
  "validate validset step events = (if validset then events @ [Validated step] else events)"

text \<open>
  Modelled from the spec: \<open>optScheduler.step()\<close> belongs to the module \<open>Optimizer\<close>, which
  is not among the sources; each completed batch increments the global step counter.
\<close>

definition optScheduler_step :: "int \<Rightarrow> int" where
  "optScheduler_step step = step + 1"

text \<open>
  One batch: the optimizer step, then the tests on the counter. The result is \<open>None\<close> when
  the loop goes on. In the branch of \<open>max_steps\<close> the arguments of \<open>save_checkpoint\<close> are
  evaluated first, among them \<open>self.OptScheduler\<close>.
\<close>

definition batch_step :: "Learning \<Rightarrow> bool \<Rightarrow> int \<times> event list \<Rightarrow> outcome option \<times> int \<times> event list" where
  "batch_step self validset st =
     (let step = optScheduler_step (fst st);
          events = snd st;
          events = (if validate_every self \<noteq> 0 \<and> step mod validate_every self = 0
                    then validate validset step events else events);
          events = (if save_every self \<noteq> 0 \<and> step mod save_every self = 0
                    then events @ [Saved step] else events)
      in if max_steps self \<noteq> 0 \<and> step \<ge> max_steps self
         then (let events = validate validset step events
               in case getattr ''OptScheduler'' of
                    Inl e \<Rightarrow> (Some (Raised e), step, events)
                  | Inr _ \<Rightarrow> (Some Returned, step, events @ [Saved step]))
         else (None, step, events))"

fun batches_loop :: "Learning \<Rightarrow> bool \<Rightarrow> nat \<Rightarrow> int \<times> event list \<Rightarrow> outcome option \<times> int \<times> event list" where
  "batches_loop self validset 0 st = (None, st)"
| "batches_loop self validset (Suc n) st =
     (case batch_step self validset st of
        (Some out, st') \<Rightarrow> (Some out, st')
      | (None, st') \<Rightarrow> batches_loop self validset n st')"

text \<open>
  The \<open>while True\<close> loop over the epochs can run for ever; it is given a number of epochs
  it may start, and is \<open>None\<close> when they are used up.
\<close>

fun epochs_loop :: "nat \<Rightarrow> Learning \<Rightarrow> bool \<Rightarrow> nat \<Rightarrow> int \<Rightarrow> int \<times> event list
    \<Rightarrow> (outcome \<times> int \<times> event list) option" where
  "epochs_loop 0 self validset n_batches epoch st = None"
| "epochs_loop (Suc fuel) self validset n_batches epoch st =
     (let epoch = epoch + 1 in
      case batches_loop self validset n_batches st of
        (Some out, st') \<Rightarrow> Some (out, st')
      | (None, step, events) \<Rightarrow>
          if max_epochs self \<noteq> 0 \<and> epoch \<ge> max_epochs self
          then (let events = validate validset step events
                in case getattr ''optScheduler'' of
                     Inl e \<Rightarrow> Some (Raised e, step, events)
                   | Inr _ \<Rightarrow> Some (Returned, step, events @ [Saved step]))
          else epochs_loop fuel self validset n_batches epoch (step, events))"

definition learn :: "nat \<Rightarrow> Learning \<Rightarrow> nat \<Rightarrow> bool \<Rightarrow> int \<Rightarrow> (outcome \<times> int \<times> event list) option" where
  "learn fuel self n_batches validset step0 = epochs_loop fuel self validset n_batches 0 (step0, [])"

definition ex_learning :: Learning where
  "ex_learning = \<lparr> max_steps = 3, max_epochs = 0, validate_every = 2, save_every = 2,
                    report_every = 1, keep_last_n = 2 \<rparr>"

chapter \<open>Properties\<close>

section \<open>Vocab: the two tables agree\<close>

lemma dict_set_fresh:
  "map_of d k = None \<Longrightarrow> dict_set d k v = d @ [(k, v)]"
  by (induction d) (auto split: if_splits)

lemma vocab_inv_empty: "vocab_inv Vocab_empty"
  by (simp add: vocab_inv_def Vocab_empty_def)

lemma vocab_inv_read_loop: "vocab_inv v \<Longrightarrow> vocab_inv (read_loop v ls)"
proof (induction ls arbitrary: v)
  case Nil
  then show ?case by simp
next
  case (Cons l ls)
  let ?tok = "rstrip l"
  show ?case
  proof (cases "dict_in ?tok (tok_to_idx v) \<or> CHR '' '' \<in> set ?tok \<or> length ?tok = 0")
    case True
    then show ?thesis using Cons by (auto simp: Let_def)
  next
    case False
    then have fresh: "map_of (tok_to_idx v) ?tok = None"
      by (simp add: dict_in_def)
    let ?v = "v\<lparr> idx_to_tok := idx_to_tok v @ [?tok],
                  tok_to_idx := dict_set (tok_to_idx v) ?tok (int (length (tok_to_idx v))) \<rparr>"
    have len: "length (tok_to_idx v) = length (idx_to_tok v)"
      using Cons.prems by (metis vocab_inv_def length_map)
    have notin: "?tok \<notin> set (idx_to_tok v)"
      using fresh Cons.prems by (metis vocab_inv_def map_of_eq_None_iff set_map)
    have "vocab_inv ?v"
      using Cons.prems notin len by (simp add: vocab_inv_def dict_set_fresh [OF fresh])
    then have "vocab_inv (read_loop ?v ls)" by (rule Cons.IH)
    then show ?thesis using False by (simp add: Let_def)
  qed
qed

lemma vocab_inv_Vocab_read: "vocab_inv v0 \<Longrightarrow> Vocab_read v0 f = Inr v \<Longrightarrow> vocab_inv v"
  by (auto simp: Vocab_read_def Let_def vocab_inv_read_loop split: option.splits sum.splits)

lemma vocab_inv_Vocab_init: "Vocab_init f = Inr v \<Longrightarrow> vocab_inv v"
  by (auto simp: Vocab_init_def vocab_inv_empty split: option.splits
      dest: vocab_inv_Vocab_read [OF vocab_inv_empty])

lemma vocab_inv_lookup:
  assumes "vocab_inv v" and "map_of (tok_to_idx v) t = Some i"
  shows "0 \<le> i \<and> i < int (length (idx_to_tok v)) \<and> idx_to_tok v ! nat i = t"
proof -
  from assms(2) have "(t, i) \<in> set (tok_to_idx v)" by (rule map_of_SomeD)
  then obtain k where k: "k < length (tok_to_idx v)" "tok_to_idx v ! k = (t, i)"
    by (auto simp: in_set_conv_nth)
  have len: "length (tok_to_idx v) = length (idx_to_tok v)"
    using assms(1) by (metis vocab_inv_def length_map)
  have "map fst (tok_to_idx v) ! k = t" using k by simp
  then have t: "idx_to_tok v ! k = t" using assms(1) by (simp add: vocab_inv_def)
  have "map snd (tok_to_idx v) ! k = i" using k by simp
  then have "map int [0..<length (idx_to_tok v)] ! k = i"
    using assms(1) by (simp add: vocab_inv_def)
  then have "i = int k" using k len by simp
  then show ?thesis using t k len by simp
qed

lemma vocab_inv_present:
  "vocab_inv v \<Longrightarrow> dict_in t (tok_to_idx v) \<longleftrightarrow> t \<in> set (idx_to_tok v)"
  by (metis dict_in_def vocab_inv_def map_of_eq_None_iff set_map)

text \<open>
  C7. For every vocabulary the constructor returns (empty, or read from a file), a token
  present in it is mapped by \<open>__getitem__\<close> to an index that \<open>__getitem__\<close> maps back to
  the token, and a token absent from it is mapped to the unknown index 1; the lookup by
  string never fails.
\<close>

theorem Vocab_getitem_roundtrip:
  assumes "Vocab_init file = Inr V"
  shows "(Vocab_contains V (Str t) \<longrightarrow>
            (\<exists>i. Vocab_getitem V (Str t) = Inr (Idx i) \<and> Vocab_getitem V (Idx i) = Inr (Str t)))
       \<and> (\<not> Vocab_contains V (Str t) \<longrightarrow> Vocab_getitem V (Str t) = Inr (Idx 1))
       \<and> (Vocab_contains V (Str t) \<longleftrightarrow> t \<in> set (idx_to_tok V))
       \<and> (\<exists>i. Vocab_getitem V (Str t) = Inr (Idx i))"
proof -
  have inv: "vocab_inv V" using assms by (rule vocab_inv_Vocab_init)
  have absent: "\<not> Vocab_contains V (Str t) \<longrightarrow> Vocab_getitem V (Str t) = Inr (Idx 1)"
    by (simp add: idx_unk_def Vocab_index_def)
  have present: "Vocab_contains V (Str t) \<longrightarrow>
      (\<exists>i. Vocab_getitem V (Str t) = Inr (Idx i) \<and> Vocab_getitem V (Idx i) = Inr (Str t))"
  proof
    assume c: "Vocab_contains V (Str t)"
    then obtain i where i: "map_of (tok_to_idx V) t = Some i"
      by (auto simp: dict_in_def)
    from vocab_inv_lookup [OF inv i]
    have r: "0 \<le> i" "i < int (length (idx_to_tok V))" "idx_to_tok V ! nat i = t" by auto
    have "Vocab_getitem V (Str t) = Inr (Idx i)" using c i by (simp add: Vocab_index_def)
    moreover have "Vocab_getitem V (Idx i) = Inr (Str t)"
      using r by (simp add: Vocab_len_def py_index_def Let_def)
    ultimately show "\<exists>i. Vocab_getitem V (Str t) = Inr (Idx i) \<and> Vocab_getitem V (Idx i) = Inr (Str t)"
      by blast
  qed
  have mem: "Vocab_contains V (Str t) \<longleftrightarrow> t \<in> set (idx_to_tok V)"
    using vocab_inv_present [OF inv] by simp
  have total: "\<exists>i. Vocab_getitem V (Str t) = Inr (Idx i)"
    by (cases "Vocab_contains V (Str t)") (use present absent in blast)+
  show ?thesis using present absent mem total by blast
qed

theorem Vocab_getitem_roundtrip_witness:
  "Vocab_init (Some (Some ex_vocab_file)) = Inr ex_vocab
   \<and> Vocab_contains ex_vocab (Str ''a'')
   \<and> (\<exists>i. Vocab_getitem ex_vocab (Str ''a'') = Inr (Idx i)
            \<and> Vocab_getitem ex_vocab (Idx i) = Inr (Str ''a''))
   \<and> \<not> Vocab_contains ex_vocab (Str ''zz'')
   \<and> Vocab_getitem ex_vocab (Str ''zz'') = Inr (Idx 1)"
proof -
  have h: "Vocab_init (Some (Some ex_vocab_file)) = Inr ex_vocab"
    by code_simp
  have a: "Vocab_contains ex_vocab (Str ''a'')" by code_simp
  have z: "\<not> Vocab_contains ex_vocab (Str ''zz'')" by code_simp
  from Vocab_getitem_roundtrip [OF h, of "''a''"] Vocab_getitem_roundtrip [OF h, of "''zz''"] h a z
  show ?thesis by blast
qed

section \<open>Vocab.build: what is printed\<close>

lemma build_loop_char:
  "build_loop n mf ms xs =
     map fst (take (if n \<le> ms then nat (ms - n) else length xs)
                   (takeWhile (\<lambda>item. mf \<le> snd item) xs))"
proof (induction xs arbitrary: n)
  case Nil
  then show ?case by simp
next
  case (Cons a xs)
  obtain tok frq where a: "a = (tok, frq)" by (cases a)
  show ?case
  proof (cases "n = ms \<or> frq < mf")
    case True
    then show ?thesis using a by auto
  next
    case False
    then have "n < ms \<or> ms < n" by auto
    then show ?thesis
    proof
      assume "n < ms"
      then have "nat (ms - n) = Suc (nat (ms - (n + 1)))" by simp
      then show ?thesis using False a Cons.IH [of "n + 1"] \<open>n < ms\<close> by simp
    next
      assume "ms < n"
      then show ?thesis using False a Cons.IH [of "n + 1"] by simp
    qed
  qed
qed

lemma map_of_count_tok:
  "map_of (count_tok d t) = (map_of d)(t \<mapsto> freq_of d t + 1)"
  by (induction d) (auto simp: freq_of_def fun_eq_iff)

lemma keys_count_tok:
  "map fst (count_tok d t) = (if t \<in> fst ` set d then map fst d else map fst d @ [t])"
  by (induction d) (force split: if_splits)+

lemma freq_of_foldl:
  "freq_of (foldl count_tok d ts) t = freq_of d t + int (count_list ts t)"
proof (induction ts arbitrary: d)
  case Nil
  then show ?case by simp
next
  case (Cons a ts)
  have "freq_of (count_tok d a) t = freq_of d t + (if a = t then 1 else 0)"
    by (simp add: freq_of_def map_of_count_tok)
  then show ?case using Cons.IH [of "count_tok d a"] by simp
qed

lemma keys_foldl:
  "map fst (foldl count_tok d ts) = first_seen (map fst d) ts"
  by (induction ts arbitrary: d) (auto simp: keys_count_tok)

lemma first_seen_set: "set (first_seen seen ts) = set seen \<union> set ts"
  by (induction seen ts rule: first_seen.induct) auto

lemma first_seen_distinct: "distinct seen \<Longrightarrow> distinct (first_seen seen ts)"
  by (induction seen ts rule: first_seen.induct) auto

lemma tok_to_frq_keys_in: "(t, c) \<in> set (foldl count_tok d ts) \<Longrightarrow> distinct (map fst d) \<Longrightarrow> c = freq_of (foldl count_tok d ts) t"
  by (metis (no_types, lifting) first_seen_distinct freq_of_def keys_foldl map_of_eq_Some_iff option.simps(5))

lemma sorted_items_sorted: "sorted_wrt (\<lambda>a b. snd a \<ge> snd b) (sorted_items items)"
proof -
  have "sorted (map (\<lambda>item. - snd item) (sorted_items items))"
    by (simp add: sorted_items_def)
  then show ?thesis by (simp add: sorted_map sorted_wrt_iff_nth_less)
qed

lemma sorted_items_stable:
  "filter (\<lambda>item. snd item = k) (sorted_items items) = filter (\<lambda>item. snd item = k) items"
  using sort_key_stable [of "\<lambda>item. - snd item" "- k" items]
  by (simp add: sorted_items_def)

lemma sorted_items_mset: "mset (sorted_items items) = mset items"
  by (simp add: sorted_items_def)

lemma remdups_snoc: "remdups (xs @ [t]) = remdups (filter (\<lambda>x. x \<noteq> t) xs) @ [t]"
  by (induction xs) auto

lemma first_seen_filter:
  "first_seen seen ts = seen @ rev (remdups (rev (filter (\<lambda>t. t \<notin> set seen) ts)))"
proof (induction seen ts rule: first_seen.induct)
  case (1 seen)
  then show ?case by simp
next
  case (2 seen t ts)
  have eq: "filter (\<lambda>x. x \<notin> set [t]) (rev (filter (\<lambda>x. x \<notin> set seen) ts))
        = rev (filter (\<lambda>x. x \<notin> set (seen @ [t])) ts)"
    by (simp add: rev_filter conj_commute)
  show ?case
  proof (cases "t \<in> set seen")
    case True
    then show ?thesis using 2 by simp
  next
    case False
    have "remdups (rev (filter (\<lambda>x. x \<notin> set seen) ts) @ [t])
        = remdups (filter (\<lambda>x. x \<notin> set [t]) (rev (filter (\<lambda>x. x \<notin> set seen) ts))) @ remdups [t]"
      using remdups_snoc [of "rev (filter (\<lambda>x. x \<notin> set seen) ts)" t] by simp
    then have "remdups (rev (filter (\<lambda>x. x \<notin> set seen) ts) @ [t])
        = remdups (rev (filter (\<lambda>x. x \<notin> set (seen @ [t])) ts)) @ [t]"
      using eq by simp
    then show ?thesis using 2 False by simp
  qed
qed

lemma tok_to_frq_keys: "map fst (tok_to_frq lines) = rev (remdups (rev (concat lines)))"
  by (simp add: tok_to_frq_def keys_foldl first_seen_filter)

lemma tok_to_frq_counts:
  "map snd (tok_to_frq lines) = map (\<lambda>t. int (count_list (concat lines) t)) (map fst (tok_to_frq lines))"
proof -
  have d: "distinct (map fst (tok_to_frq lines))" by (simp add: tok_to_frq_keys)
  have "snd item = int (count_list (concat lines) (fst item))" if "item \<in> set (tok_to_frq lines)" for item
  proof -
    have "(fst item, snd item) \<in> set (foldl count_tok [] (concat lines))"
      using that by (simp add: tok_to_frq_def)
    then have "snd item = freq_of (foldl count_tok [] (concat lines)) (fst item)"
      by (rule tok_to_frq_keys_in) simp
    then show ?thesis unfolding freq_of_foldl by (simp add: freq_of_def)
  qed
  then show ?thesis by simp
qed

text \<open>
  C6 (as amended). \<open>Vocab.build\<close> prints the five reserved symbols, then the tokens in
  order of descending frequency, equal frequencies in order of first appearance, and stops
  at the first candidate whose frequency is below \<open>min_freq\<close> or when the number of lines
  printed so far equals \<open>max_size\<close>. The count starts at 5, so for \<open>max_size \<ge> 5\<close> at
  most \<open>max_size\<close> lines are printed, and for every \<open>max_size < 5\<close> (0, but also 1 to 4
  and the negative values) the size never stops the loop. Each token is a candidate once,
  with the number of its occurrences in the input as its frequency.
\<close>

theorem Vocab_build_output:
  fixes lines :: "string list list"
  defines "items \<equiv> tok_to_frq lines"
  defines "cands \<equiv> sorted_items items"
  shows "Vocab_build lines min_freq max_size =
           [''<pad>'', ''<unk>'', ''<bos>'', ''<eos>'', ''<sep>'']
             @ map fst (take (if 5 \<le> max_size then nat (max_size - 5) else length cands)
                             (takeWhile (\<lambda>item. min_freq \<le> snd item) cands))
       \<and> Vocab_build lines min_freq 0 =
           [''<pad>'', ''<unk>'', ''<bos>'', ''<eos>'', ''<sep>'']
             @ map fst (takeWhile (\<lambda>item. min_freq \<le> snd item) cands)
       \<and> sorted_wrt (\<lambda>a b. snd a \<ge> snd b) cands
       \<and> (\<forall>k. filter (\<lambda>item. snd item = k) cands = filter (\<lambda>item. snd item = k) items)
       \<and> mset cands = mset items
       \<and> map fst items = rev (remdups (rev (concat lines)))
       \<and> map snd items = map (\<lambda>t. int (count_list (concat lines) t)) (map fst items)"
proof -
  have 1: "Vocab_build lines min_freq max_size =
           [''<pad>'', ''<unk>'', ''<bos>'', ''<eos>'', ''<sep>'']
             @ map fst (take (if 5 \<le> max_size then nat (max_size - 5) else length cands)
                             (takeWhile (\<lambda>item. min_freq \<le> snd item) cands))" for max_size
    by (simp add: Vocab_build_def build_loop_char cands_def items_def
        str_pad_def str_unk_def str_bos_def str_eos_def str_sep_def)
  have "length (takeWhile (\<lambda>item. min_freq \<le> snd item) cands) \<le> length cands"
    by (rule length_takeWhile_le)
  then have 2: "Vocab_build lines min_freq 0 =
           [''<pad>'', ''<unk>'', ''<bos>'', ''<eos>'', ''<sep>'']
             @ map fst (takeWhile (\<lambda>item. min_freq \<le> snd item) cands)"
    using 1 [of 0] by simp
  show ?thesis
    using 1 2 sorted_items_sorted sorted_items_stable sorted_items_mset tok_to_frq_keys tok_to_frq_counts
    unfolding cands_def items_def by blast
qed

text \<open>
  C6 as stated fails for \<open>max_size\<close> between 1 and 4: with \<open>max_size = 3\<close> the loop
  does not stop although more than three lines have been printed.
\<close>

theorem Vocab_build_max_size_counterexample:
  "Vocab_build [[''a'', ''b'', ''a'']] 1 3 = [''<pad>'', ''<unk>'', ''<bos>'', ''<eos>'', ''<sep>'', ''a'', ''b'']
   \<and> \<not> length (Vocab_build [[''a'', ''b'', ''a'']] 1 3) \<le> max 5 3"
  by code_simp

section \<open>prepare_input: inputs, reference and masks\<close>

lemma fold_max_ge_init: "a \<le> fold max (xs::nat list) a"
proof (induction xs arbitrary: a)
  case Nil
  then show ?case by simp
next
  case (Cons x xs)
  have "max x a \<le> fold max xs (max x a)" by (rule Cons.IH)
  then show ?case by simp
qed

lemma fold_max_ge_elem: "x \<in> set xs \<Longrightarrow> x \<le> fold max (xs::nat list) a"
proof (induction xs arbitrary: a)
  case Nil
  then show ?case by simp
next
  case (Cons y ys)
  show ?case
  proof (cases "x = y")
    case True
    have "max y a \<le> fold max ys (max y a)" by (rule fold_max_ge_init)
    then show ?thesis using True by simp
  next
    case False
    then have "x \<in> set ys" using Cons.prems by simp
    then show ?thesis using Cons.IH by simp
  qed
qed

lemma fold_max_attained: "fold max (xs::nat list) a \<in> insert a (set xs)"
proof (induction xs arbitrary: a)
  case Nil
  then show ?case by simp
next
  case (Cons y ys)
  have "fold max ys (max y a) \<in> insert (max y a) (set ys)" by (rule Cons.IH)
  moreover have "max y a = y \<or> max y a = a" by (auto simp: max_def)
  ultimately show ?case by auto
qed

lemma max_len_of_upper: "s \<in> set sequences \<Longrightarrow> length s \<le> max_len_of sequences"
  unfolding max_len_of_def by (rule fold_max_ge_elem) simp

lemma max_len_of_attained:
  "sequences \<noteq> [] \<Longrightarrow> \<exists>s \<in> set sequences. length s = max_len_of sequences"
proof -
  assume ne: "sequences \<noteq> []"
  have "max_len_of sequences \<in> insert 0 (set (map length sequences))"
    unfolding max_len_of_def by (rule fold_max_attained)
  then consider "max_len_of sequences = 0" | "max_len_of sequences \<in> length ` set sequences"
    by auto
  then show ?thesis
  proof cases
    case 1
    obtain s where s: "s \<in> set sequences" using ne by (cases sequences) auto
    then have "length s \<le> 0" using max_len_of_upper [OF s] 1 by simp
    then show ?thesis using s 1 by auto
  next
    case 2
    then show ?thesis by auto
  qed
qed

lemma pad_sequence_Inr:
  assumes "pad_sequence sequences v = Inr t"
  shows "sequences \<noteq> []"
    and "t = map (\<lambda>s. s @ replicate (max_len_of sequences - length s) v) sequences"
  using assms by (auto simp: pad_sequence_def Let_def split: if_splits)

lemma pad_sequence_row:
  assumes "pad_sequence sequences v = Inr t" and "b < length sequences"
  shows "t ! b = sequences ! b @ replicate (max_len_of sequences - length (sequences ! b)) v"
    and "length (t ! b) = max_len_of sequences"
proof -
  show 1: "t ! b = sequences ! b @ replicate (max_len_of sequences - length (sequences ! b)) v"
    using pad_sequence_Inr(2) [OF assms(1)] assms(2) by simp
  have "length (sequences ! b) \<le> max_len_of sequences"
    using assms(2) by (intro max_len_of_upper) simp
  then show "length (t ! b) = max_len_of sequences" using 1 by simp
qed

lemma pad_sequence_size1:
  assumes "pad_sequence sequences v = Inr t"
  shows "size1 t = max_len_of sequences"
proof -
  have ne: "sequences \<noteq> []" using assms by (rule pad_sequence_Inr(1))
  then have 0: "0 < length sequences" by simp
  have "t \<noteq> []" using pad_sequence_Inr(2) [OF assms] ne by simp
  then have "size1 t = length (t ! 0)" by (cases t) (simp_all add: size1_def)
  then show ?thesis using pad_sequence_row(2) [OF assms 0] by simp
qed

lemma causal_nth: "i < n \<Longrightarrow> j < n \<Longrightarrow> causal n ! i ! j = (j \<le> i)"
  by (simp add: causal_def triu_ones_def)

lemma causal_length: "length (causal n) = n" "i < n \<Longrightarrow> length (causal n ! i) = n"
  by (simp_all add: causal_def triu_ones_def)

lemma msk_tgt_nth:
  assumes "b < length t" and "length (t ! b) = n" and "i < n" and "j < n"
  shows "and_broadcast (unsqueeze_m2 (ne_scalar t v)) (causal n) ! b ! i ! j = (t ! b ! j \<noteq> v \<and> j \<le> i)"
  using assms by (simp add: and_broadcast_def unsqueeze_m2_def ne_scalar_def causal_nth causal_length)

lemma msk_tgt_shape:
  assumes "b < length t" and "length (t ! b) = n"
  shows "length (and_broadcast (unsqueeze_m2 (ne_scalar t v)) (causal n) ! b) = n"
    and "i < n \<Longrightarrow> length (and_broadcast (unsqueeze_m2 (ne_scalar t v)) (causal n) ! b ! i) = n"
  using assms by (simp_all add: and_broadcast_def unsqueeze_m2_def ne_scalar_def causal_length)

lemma msk_src_nth:
  assumes "b < length t"
  shows "unsqueeze_m2 (ne_scalar t v) ! b = [map (\<lambda>x. x \<noteq> v) (t ! b)]"
  using assms by (simp add: unsqueeze_m2_def ne_scalar_def)

lemma max_len_of_butlast_tl:
  "max_len_of (map tl bt) = max_len_of (map butlast bt)"
  by (simp add: max_len_of_def comp_def)

lemma prepare_input_returned:
  assumes "prepare_input batch_src (Some batch_tgt) pad = Inr r"
  shows "\<exists>src tgt ref msk_src msk_tgt lt.
      r = Prepared5 src tgt ref msk_src msk_tgt
    \<and> length src = length batch_src \<and> length msk_src = length batch_src
    \<and> length tgt = length batch_tgt \<and> length ref = length batch_tgt
    \<and> length msk_tgt = length batch_tgt
    \<and> (\<forall>s \<in> set batch_tgt. length s - 1 \<le> lt) \<and> (\<exists>s \<in> set batch_tgt. length s - 1 = lt)
    \<and> (\<forall>b < length batch_tgt.
          tgt ! b = butlast (batch_tgt ! b) @ replicate (lt - (length (batch_tgt ! b) - 1)) pad
        \<and> ref ! b = tl (batch_tgt ! b) @ replicate (lt - (length (batch_tgt ! b) - 1)) pad
        \<and> length (tgt ! b) = lt \<and> length (ref ! b) = lt
        \<and> length (msk_tgt ! b) = lt
        \<and> (\<forall>i < lt. length (msk_tgt ! b ! i) = lt
             \<and> (\<forall>j < lt. msk_tgt ! b ! i ! j = (tgt ! b ! j \<noteq> pad \<and> j \<le> i))))
    \<and> (\<forall>b < length batch_src.
          (\<exists>n. src ! b = batch_src ! b @ replicate n pad)
        \<and> msk_src ! b = [map (\<lambda>x. x \<noteq> pad) (src ! b)])"
proof -
  from assms obtain src tgt ref where
    src: "pad_sequence batch_src pad = Inr src" and
    tgt: "pad_sequence (map butlast batch_tgt) pad = Inr tgt" and
    ref: "pad_sequence (map tl batch_tgt) pad = Inr ref" and
    r: "r = Prepared5 src tgt ref (unsqueeze_m2 (ne_scalar src pad))
              (and_broadcast (unsqueeze_m2 (ne_scalar tgt pad)) (causal (size1 tgt)))"
    by (auto simp: prepare_input_def Let_def split: sum.splits)
  define lt where "lt = max_len_of (map butlast batch_tgt)"
  have sz: "size1 tgt = lt" using pad_sequence_size1 [OF tgt] by (simp add: lt_def)
  have lref: "max_len_of (map tl batch_tgt) = lt" by (simp add: lt_def max_len_of_butlast_tl)
  have len_src: "length src = length batch_src" using pad_sequence_Inr(2) [OF src] by simp
  have len_tgt: "length tgt = length batch_tgt" using pad_sequence_Inr(2) [OF tgt] by simp
  have len_ref: "length ref = length batch_tgt" using pad_sequence_Inr(2) [OF ref] by simp
  have ne: "batch_tgt \<noteq> []" using pad_sequence_Inr(1) [OF tgt] by simp
  have upper: "\<forall>s \<in> set batch_tgt. length s - 1 \<le> lt"
  proof
    fix s assume "s \<in> set batch_tgt"
    then have "butlast s \<in> set (map butlast batch_tgt)" by simp
    then have "length (butlast s) \<le> lt" unfolding lt_def by (rule max_len_of_upper)
    then show "length s - 1 \<le> lt" by simp
  qed
  have attained: "\<exists>s \<in> set batch_tgt. length s - 1 = lt"
  proof -
    have "map butlast batch_tgt \<noteq> []" using ne by simp
    from max_len_of_attained [OF this]
    obtain s where "s \<in> set batch_tgt" "length (butlast s) = lt"
      by (auto simp: lt_def)
    then show ?thesis by auto
  qed
  have rows_tgt: "\<forall>b < length batch_tgt.
          tgt ! b = butlast (batch_tgt ! b) @ replicate (lt - (length (batch_tgt ! b) - 1)) pad
        \<and> ref ! b = tl (batch_tgt ! b) @ replicate (lt - (length (batch_tgt ! b) - 1)) pad
        \<and> length (tgt ! b) = lt \<and> length (ref ! b) = lt
        \<and> length (and_broadcast (unsqueeze_m2 (ne_scalar tgt pad)) (causal (size1 tgt)) ! b) = lt
        \<and> (\<forall>i < lt. length (and_broadcast (unsqueeze_m2 (ne_scalar tgt pad)) (causal (size1 tgt)) ! b ! i) = lt
             \<and> (\<forall>j < lt. and_broadcast (unsqueeze_m2 (ne_scalar tgt pad)) (causal (size1 tgt)) ! b ! i ! j
                     = (tgt ! b ! j \<noteq> pad \<and> j \<le> i)))"
  proof (intro allI impI)
    fix b assume b: "b < length batch_tgt"
    then have b1: "b < length (map butlast batch_tgt)" and b2: "b < length (map tl batch_tgt)"
      and b3: "b < length tgt"
      using len_tgt by simp_all
    have t1: "tgt ! b = butlast (batch_tgt ! b) @ replicate (lt - (length (batch_tgt ! b) - 1)) pad"
      using pad_sequence_row(1) [OF tgt b1] b by (simp add: lt_def)
    have t2: "length (tgt ! b) = lt"
      using pad_sequence_row(2) [OF tgt b1] by (simp add: lt_def)
    have r1: "ref ! b = tl (batch_tgt ! b) @ replicate (lt - (length (batch_tgt ! b) - 1)) pad"
      using pad_sequence_row(1) [OF ref b2] b lref by simp
    have r2: "length (ref ! b) = lt"
      using pad_sequence_row(2) [OF ref b2] lref by simp
    show "tgt ! b = butlast (batch_tgt ! b) @ replicate (lt - (length (batch_tgt ! b) - 1)) pad
        \<and> ref ! b = tl (batch_tgt ! b) @ replicate (lt - (length (batch_tgt ! b) - 1)) pad
        \<and> length (tgt ! b) = lt \<and> length (ref ! b) = lt
        \<and> length (and_broadcast (unsqueeze_m2 (ne_scalar tgt pad)) (causal (size1 tgt)) ! b) = lt
        \<and> (\<forall>i < lt. length (and_broadcast (unsqueeze_m2 (ne_scalar tgt pad)) (causal (size1 tgt)) ! b ! i) = lt
             \<and> (\<forall>j < lt. and_broadcast (unsqueeze_m2 (ne_scalar tgt pad)) (causal (size1 tgt)) ! b ! i ! j
                     = (tgt ! b ! j \<noteq> pad \<and> j \<le> i)))"
      unfolding sz
      using t1 r1 t2 r2 msk_tgt_shape [OF b3 t2] msk_tgt_nth [OF b3 t2] by simp
  qed
  have rows_src: "\<forall>b < length batch_src.
          (\<exists>n. src ! b = batch_src ! b @ replicate n pad)
        \<and> unsqueeze_m2 (ne_scalar src pad) ! b = [map (\<lambda>x. x \<noteq> pad) (src ! b)]"
  proof (intro allI impI)
    fix b assume b: "b < length batch_src"
    then have b': "b < length src" using len_src by simp
    show "(\<exists>n. src ! b = batch_src ! b @ replicate n pad)
        \<and> unsqueeze_m2 (ne_scalar src pad) ! b = [map (\<lambda>x. x \<noteq> pad) (src ! b)]"
      using pad_sequence_row(1) [OF src b] msk_src_nth [OF b'] by blast
  qed
  have lens: "length (unsqueeze_m2 (ne_scalar src pad)) = length batch_src"
    "length (and_broadcast (unsqueeze_m2 (ne_scalar tgt pad)) (causal (size1 tgt))) = length batch_tgt"
    using len_src len_tgt by (simp_all add: unsqueeze_m2_def ne_scalar_def and_broadcast_def)
  show ?thesis
    using r len_src len_tgt len_ref lens upper attained rows_tgt rows_src by blast
qed

text \<open>
  C10. For a batch with at least one source and one target sequence \<open>prepare_input\<close>
  returns its five tensors: the target input is each
  target sequence without its last token and the reference the same sequence without its
  first token, both padded on the right with the pad index to the common length \<open>lt\<close> (the
  longest target length minus one); \<open>msk_src\<close> holds, for each source row, the one row of
  the tests "token is not the pad index"; and \<open>msk_tgt\<close> at \<open>(i, j)\<close> is true exactly when
  target-input position \<open>j\<close> is not the pad index and \<open>j \<le> i\<close>.
\<close>

theorem prepare_input_spec:
  assumes "batch_src \<noteq> []" and "batch_tgt \<noteq> []"
  shows "\<exists>src tgt ref msk_src msk_tgt lt.
      prepare_input batch_src (Some batch_tgt) pad = Inr (Prepared5 src tgt ref msk_src msk_tgt)
    \<and> length src = length batch_src \<and> length msk_src = length batch_src
    \<and> length tgt = length batch_tgt \<and> length ref = length batch_tgt
    \<and> length msk_tgt = length batch_tgt
    \<and> (\<forall>s \<in> set batch_tgt. length s - 1 \<le> lt) \<and> (\<exists>s \<in> set batch_tgt. length s - 1 = lt)
    \<and> (\<forall>b < length batch_tgt.
          tgt ! b = butlast (batch_tgt ! b) @ replicate (lt - (length (batch_tgt ! b) - 1)) pad
        \<and> ref ! b = tl (batch_tgt ! b) @ replicate (lt - (length (batch_tgt ! b) - 1)) pad
        \<and> length (tgt ! b) = lt \<and> length (ref ! b) = lt
        \<and> length (msk_tgt ! b) = lt
        \<and> (\<forall>i < lt. length (msk_tgt ! b ! i) = lt
             \<and> (\<forall>j < lt. msk_tgt ! b ! i ! j = (tgt ! b ! j \<noteq> pad \<and> j \<le> i))))
    \<and> (\<forall>b < length batch_src.
          (\<exists>n. src ! b = batch_src ! b @ replicate n pad)
        \<and> msk_src ! b = [map (\<lambda>x. x \<noteq> pad) (src ! b)])"
proof -
  have "\<exists>r. prepare_input batch_src (Some batch_tgt) pad = Inr r"
    using assms by (simp add: prepare_input_def pad_sequence_def Let_def)
  then obtain r where r: "prepare_input batch_src (Some batch_tgt) pad = Inr r" ..
  from prepare_input_returned [OF r] r show ?thesis by blast
qed

theorem prepare_input_spec_witness:
  "prepare_input ex_batch_src (Some ex_batch_tgt) 0 = Inr ex_prepared
   \<and> (\<exists>src tgt ref msk_src msk_tgt.
         ex_prepared = Prepared5 src tgt ref msk_src msk_tgt
       \<and> tgt ! 1 = [2, 7, 0] \<and> ref ! 1 = [7, 3, 0]
       \<and> msk_tgt ! 1 ! 2 ! 2 = (tgt ! 1 ! 2 \<noteq> 0 \<and> (2::nat) \<le> 2)
       \<and> msk_tgt ! 1 ! 0 ! 1 = (tgt ! 1 ! 1 \<noteq> 0 \<and> (1::nat) \<le> 0)
       \<and> msk_src ! 1 = [map (\<lambda>x. x \<noteq> 0) (src ! 1)])"
proof -
  have h: "prepare_input ex_batch_src (Some ex_batch_tgt) 0 = Inr ex_prepared"
    by code_simp
  have ne: "ex_batch_src \<noteq> []" "ex_batch_tgt \<noteq> []"
    by (simp_all add: ex_batch_src_def ex_batch_tgt_def)
  from prepare_input_spec [OF ne, of 0] obtain src tgt ref msk_src msk_tgt lt where
    r': "prepare_input ex_batch_src (Some ex_batch_tgt) 0 = Inr (Prepared5 src tgt ref msk_src msk_tgt)" and
    upper: "\<forall>s \<in> set ex_batch_tgt. length s - 1 \<le> lt" and
    attained: "\<exists>s \<in> set ex_batch_tgt. length s - 1 = lt" and
    rows: "\<forall>b < length ex_batch_tgt.
          tgt ! b = butlast (ex_batch_tgt ! b) @ replicate (lt - (length (ex_batch_tgt ! b) - 1)) 0
        \<and> ref ! b = tl (ex_batch_tgt ! b) @ replicate (lt - (length (ex_batch_tgt ! b) - 1)) 0
        \<and> length (tgt ! b) = lt \<and> length (ref ! b) = lt
        \<and> length (msk_tgt ! b) = lt
        \<and> (\<forall>i < lt. length (msk_tgt ! b ! i) = lt
             \<and> (\<forall>j < lt. msk_tgt ! b ! i ! j = (tgt ! b ! j \<noteq> 0 \<and> j \<le> i)))" and
    srows: "\<forall>b < length ex_batch_src.
          (\<exists>n. src ! b = ex_batch_src ! b @ replicate n 0)
        \<and> msk_src ! b = [map (\<lambda>x. x \<noteq> 0) (src ! b)]"
    by blast
  have r: "ex_prepared = Prepared5 src tgt ref msk_src msk_tgt" using r' h by simp
  have lt: "lt = 3" using upper attained by (auto simp: ex_batch_tgt_def)
  have b: "(1::nat) < length ex_batch_tgt" "(1::nat) < length ex_batch_src"
    by (simp_all add: ex_batch_tgt_def ex_batch_src_def)
  from rows b(1) have row1:
    "tgt ! 1 = butlast (ex_batch_tgt ! 1) @ replicate (lt - (length (ex_batch_tgt ! 1) - 1)) 0"
    "ref ! 1 = tl (ex_batch_tgt ! 1) @ replicate (lt - (length (ex_batch_tgt ! 1) - 1)) 0"
    "\<forall>i < lt. \<forall>j < lt. msk_tgt ! 1 ! i ! j = (tgt ! 1 ! j \<noteq> 0 \<and> j \<le> i)"
    by blast+
  have t: "tgt ! 1 = [2, 7, 0]" "ref ! 1 = [7, 3, 0]"
    using row1(1,2) lt by (simp_all add: ex_batch_tgt_def)
  have m: "msk_tgt ! 1 ! 2 ! 2 = (tgt ! 1 ! 2 \<noteq> 0 \<and> (2::nat) \<le> 2)"
    "msk_tgt ! 1 ! 0 ! 1 = (tgt ! 1 ! 1 \<noteq> 0 \<and> (1::nat) \<le> 0)"
    using row1(3) lt by simp_all
  have ms: "msk_src ! 1 = [map (\<lambda>x. x \<noteq> 0) (src ! 1)]" using srows b(2) by blast
  show ?thesis using h r t m ms by blast
qed

section \<open>Checkpoints: names, retention and loading\<close>




lemma fixed_width_length [simp]: "length (fixed_width n k) = n"
  by (induction n arbitrary: k) simp_all


lemma decimal_length_pos: "0 < length (decimal k)"
  by (subst decimal.simps) simp








lemma map_of_dict_set: "map_of (dict_set d k v) = (map_of d)(k \<mapsto> v)"
  by (induction d) (auto simp: fun_eq_iff)






































section \<open>Dataset: reading, sharding and padding\<close>

lemma py_range_Inr:
  assumes "py_range n step = Inr starts" and "i \<in> set starts"
  shows "0 < step" and "i < n"
proof -
  have nz: "step \<noteq> 0" using assms(1) by (auto simp: py_range_def split: if_splits)
  show pos: "0 < step"
  proof (rule ccontr)
    assume "\<not> 0 < step"
    then have "step < 0" using nz by simp
    then have "starts = []" using assms(1) by (simp add: py_range_def)
    then show False using assms(2) by simp
  qed
  let ?s = "nat step"
  have s: "0 < ?s" using pos by simp
  have "starts = map (\<lambda>k. k * ?s) [0..<(n + ?s - 1) div ?s]"
    using assms(1) pos by (simp add: py_range_def)
  then obtain k where k: "k < (n + ?s - 1) div ?s" and i: "i = k * ?s"
    using assms(2) by auto
  from k have "Suc k \<le> (n + ?s - 1) div ?s" by simp
  then have "Suc k * ?s \<le> n + ?s - 1" using s by (simp add: less_eq_div_iff_mult_less_eq)
  then have "k * ?s + ?s \<le> n + ?s - 1" by simp
  then show "i < n" using i s by linarith
qed

lemma slices_Inr:
  assumes "slices xs n = Inr groups" and "g \<in> set groups"
  shows "g \<noteq> []" and "set g \<subseteq> set xs"
proof -
  from assms(1) obtain starts where st: "py_range (length xs) n = Inr starts"
    and gs: "groups = map (\<lambda>i. take (min (length xs) (i + nat n) - i) (drop i xs)) starts"
    by (auto simp: slices_def split: sum.splits)
  from assms(2) gs obtain i where i: "i \<in> set starts"
    and g: "g = take (min (length xs) (i + nat n) - i) (drop i xs)" by auto
  have pos: "0 < n" and lt: "i < length xs" using py_range_Inr [OF st i] by simp_all
  have "0 < min (length xs) (i + nat n) - i" using pos lt by simp
  moreover have "drop i xs \<noteq> []" using lt by simp
  ultimately show "g \<noteq> []" unfolding g by (metis take_eq_Nil less_numeral_extra(3))
  show "set g \<subseteq> set xs" unfolding g
    by (meson set_take_subset set_drop_subset subset_trans)
qed

lemma sort_shard_set: "set (sort_shard shard) = set shard"
  by (simp add: sort_shard_def)

lemma sort_shard_Nil: "sort_shard shard = [] \<longleftrightarrow> shard = []"
  by (metis sort_shard_set set_empty)

lemma py_max_Inr:
  assumes "py_max xs = Inr m"
  shows "m \<in> set xs" and "\<forall>x \<in> set xs. x \<le> m"
proof -
  from assms obtain x rest where xs: "xs = x # rest" and m: "m = fold max rest x"
    by (auto simp: py_max_def split: list.splits)
  show "m \<in> set xs" using fold_max_attained [of rest x] xs m by simp
  show "\<forall>x \<in> set xs. x \<le> m"
    using fold_max_ge_init [of x rest] fold_max_ge_elem [of _ rest x] xs m by auto
qed

lemma build_rows_Inr:
  "build_rows rows ldata sp tp ms mt = Inr batch \<Longrightarrow>
     batch = map (pad_row ldata sp tp ms mt) rows \<and> (\<forall>ex \<in> set rows. fst ex < length ldata)"
proof (induction rows arbitrary: batch)
  case Nil
  then show ?case by simp
next
  case (Cons ex rows)
  obtain pos sl tl where ex: "ex = (pos, sl, tl)" by (cases ex)
  from Cons.prems ex obtain pair rest where
    p: "py_index ldata (int pos) = Inr pair" and
    r: "build_rows rows ldata sp tp ms mt = Inr rest" and
    b: "batch = (pos, fst pair @ replicate (ms - sl) sp, snd pair @ replicate (mt - tl) tp) # rest"
    by (auto simp: Let_def split: sum.splits)
  from p have lt: "pos < length ldata" and pair: "pair = ldata ! pos"
    by (auto simp: py_index_def split: if_splits)
  show ?case using Cons.IH [OF r] b lt pair ex by (simp add: pad_row_def)
qed

lemma build_batch_Inr:
  assumes "build_batch shard_batch ldata sp tp = Inr batch"
  shows "\<exists>ms mt. batch = map (pad_row ldata sp tp ms mt) shard_batch
           \<and> (\<forall>ex \<in> set shard_batch.
                 fst ex < length ldata \<and> fst (snd ex) \<le> ms \<and> snd (snd ex) \<le> mt)
           \<and> (\<exists>ex \<in> set shard_batch. fst (snd ex) = ms)
           \<and> (\<exists>ex \<in> set shard_batch. snd (snd ex) = mt)"
proof -
  have f1: "(\<lambda>(pos, src_len, tgt_len). src_len) = (\<lambda>ex :: example. fst (snd ex))"
    by (simp add: fun_eq_iff split_beta)
  have f2: "(\<lambda>(pos, src_len, tgt_len). tgt_len) = (\<lambda>ex :: example. snd (snd ex))"
    by (simp add: fun_eq_iff split_beta)
  from assms obtain ms mt where
    ms: "py_max (map (\<lambda>ex. fst (snd ex)) shard_batch) = Inr ms" and
    mt: "py_max (map (\<lambda>ex. snd (snd ex)) shard_batch) = Inr mt" and
    rows: "build_rows shard_batch ldata sp tp ms mt = Inr batch"
    unfolding build_batch_def f1 f2 by (auto split: sum.splits)
  from build_rows_Inr [OF rows] have
    b: "batch = map (pad_row ldata sp tp ms mt) shard_batch" and
    inr: "\<forall>ex \<in> set shard_batch. fst ex < length ldata" by simp_all
  have le1: "\<forall>ex \<in> set shard_batch. fst (snd ex) \<le> ms" using py_max_Inr(2) [OF ms] by simp
  have le2: "\<forall>ex \<in> set shard_batch. snd (snd ex) \<le> mt" using py_max_Inr(2) [OF mt] by simp
  have at1: "\<exists>ex \<in> set shard_batch. fst (snd ex) = ms" using py_max_Inr(1) [OF ms] by auto
  have at2: "\<exists>ex \<in> set shard_batch. snd (snd ex) = mt" using py_max_Inr(1) [OF mt] by auto
  have "batch = map (pad_row ldata sp tp ms mt) shard_batch
           \<and> (\<forall>ex \<in> set shard_batch.
                 fst ex < length ldata \<and> fst (snd ex) \<le> ms \<and> snd (snd ex) \<le> mt)
           \<and> (\<exists>ex \<in> set shard_batch. fst (snd ex) = ms)
           \<and> (\<exists>ex \<in> set shard_batch. snd (snd ex) = mt)"
    using b inr le1 le2 at1 at2 by simp
  then show ?thesis by (intro exI)
qed

lemma build_shard_batches_Inr:
  "build_shard_batches groups ldata sp tp = Inr batches \<Longrightarrow> batch \<in> set batches \<Longrightarrow>
     \<exists>g \<in> set groups. build_batch g ldata sp tp = Inr batch"
proof (induction groups arbitrary: batches)
  case Nil
  then show ?case by simp
next
  case (Cons g groups)
  from Cons.prems(1) obtain b rest where
    b: "build_batch g ldata sp tp = Inr b" and
    r: "build_shard_batches groups ldata sp tp = Inr rest" and
    bs: "batches = b # rest"
    by (auto split: sum.splits)
  show ?case
  proof (cases "batch = b")
    case True
    then show ?thesis using b by auto
  next
    case False
    then have "batch \<in> set rest" using Cons.prems(2) bs by simp
    from Cons.IH [OF r this] show ?thesis by auto
  qed
qed

lemma build_batches_Inr:
  "build_batches shards batch_size ldata sp tp = Inr batches \<Longrightarrow> batch \<in> set batches \<Longrightarrow>
     \<exists>shard \<in> set shards. \<exists>groups. slices shard batch_size = Inr groups
        \<and> (\<exists>g \<in> set groups. build_batch g ldata sp tp = Inr batch)"
proof (induction shards arbitrary: batches)
  case Nil
  then show ?case by simp
next
  case (Cons shard shards)
  from Cons.prems(1) obtain groups bs rest where
    g: "slices shard batch_size = Inr groups" and
    b: "build_shard_batches groups ldata sp tp = Inr bs" and
    r: "build_batches shards batch_size ldata sp tp = Inr rest" and
    all: "batches = bs @ rest"
    by (auto split: sum.splits)
  from Cons.prems(2) all consider "batch \<in> set bs" | "batch \<in> set rest" by auto
  then show ?case
  proof cases
    case 1
    from build_shard_batches_Inr [OF b 1] g show ?thesis by auto
  next
    case 2
    from Cons.IH [OF r 2] show ?thesis by auto
  qed
qed

lemma read_src_Inr:
  "read_src vocab token lines = Inr srcs \<Longrightarrow>
     srcs = map (encode_line vocab token) lines \<and> lines \<noteq> []"
  by (auto simp: read_src_def Let_def split: if_splits)

lemma read_tgt_loop_Inr:
  "read_tgt_loop vocab token n i lines = Inr tgts \<Longrightarrow>
     tgts = map (encode_line vocab token) lines"
proof (induction lines arbitrary: i tgts)
  case Nil
  then show ?case by simp
next
  case (Cons l ls)
  from Cons.prems obtain rest where
    i: "i < n" and r: "read_tgt_loop vocab token n (i + 1) ls = Inr rest" and
    t: "tgts = encode_line vocab token l # rest"
    by (auto split: if_splits sum.splits)
  from Cons.IH [OF r] t show ?case by simp
qed

lemma read_tgt_Inr:
  assumes "read_tgt vocab token n lines = Inr tgts"
  shows "tgts = map (encode_line vocab token) lines" and "length lines = n"
proof -
  from assms obtain ts where
    l: "read_tgt_loop vocab token n 0 lines = Inr ts" and
    c: "(if lines = [] then int n - 1 else int (length lines) - 1) = int n - 1" and
    z: "count_tokens token lines \<noteq> 0" and t: "tgts = ts"
    by (auto simp: read_tgt_def Let_def split: sum.splits if_splits)
  show "tgts = map (encode_line vocab token) lines" using read_tgt_loop_Inr [OF l] t by simp
  have "lines \<noteq> []" using z by (auto simp: count_tokens_def)
  then show "length lines = n" using c by simp
qed

lemma idata_rows_ok:
  assumes "ex \<in> set (map (\<lambda>(i, (src, tgt)). (i, length src, length tgt)) (enumerate 0 ldata))"
  shows "row_ok ldata ex"
proof -
  from assms obtain i p where ip: "(i, p) \<in> set (enumerate 0 ldata)"
    and ex: "ex = (i, length (fst p), length (snd p))"
    by (auto simp: case_prod_beta)
  from ip have "i < length ldata" "p = ldata ! i" by (auto simp: in_set_enumerate_eq)
  then show ?thesis using ex by (simp add: row_ok_def)
qed

lemma build_batch_padded:
  assumes b: "build_batch g ldata sp tp = Inr batch"
    and ok: "\<forall>ex \<in> set g. row_ok ldata ex" and ne: "g \<noteq> []"
  shows "batch \<noteq> []
    \<and> (\<exists>ms mt.
         (\<forall>tr \<in> set batch.
             fst tr < length ldata
           \<and> length (fst (snd tr)) = ms \<and> length (snd (snd tr)) = mt
           \<and> fst (snd tr) = fst (ldata ! fst tr) @ replicate (ms - length (fst (ldata ! fst tr))) sp
           \<and> snd (snd tr) = snd (ldata ! fst tr) @ replicate (mt - length (snd (ldata ! fst tr))) tp)
       \<and> (\<exists>tr \<in> set batch. fst (snd tr) = fst (ldata ! fst tr))
       \<and> (\<exists>tr \<in> set batch. snd (snd tr) = snd (ldata ! fst tr)))"
proof -
  from build_batch_Inr [OF b] obtain ms mt where
    batch: "batch = map (pad_row ldata sp tp ms mt) g" and
    le: "\<forall>ex \<in> set g. fst ex < length ldata \<and> fst (snd ex) \<le> ms \<and> snd (snd ex) \<le> mt" and
    at1: "\<exists>ex \<in> set g. fst (snd ex) = ms" and
    at2: "\<exists>ex \<in> set g. snd (snd ex) = mt"
    by blast
  have row: "fst tr < length ldata
           \<and> length (fst (snd tr)) = ms \<and> length (snd (snd tr)) = mt
           \<and> fst (snd tr) = fst (ldata ! fst tr) @ replicate (ms - length (fst (ldata ! fst tr))) sp
           \<and> snd (snd tr) = snd (ldata ! fst tr) @ replicate (mt - length (snd (ldata ! fst tr))) tp"
    if "tr \<in> set batch" for tr
  proof -
    from that batch obtain ex where ex: "ex \<in> set g" and tr: "tr = pad_row ldata sp tp ms mt ex"
      by auto
    have r: "row_ok ldata ex" using ok ex by simp
    have l: "fst (snd ex) \<le> ms" "snd (snd ex) \<le> mt" using le ex by simp_all
    show ?thesis using r l unfolding tr row_ok_def pad_row_def
      by (simp add: case_prod_beta)
  qed
  from at1 obtain e1 where e1: "e1 \<in> set g" "fst (snd e1) = ms" by blast
  have "row_ok ldata e1" using ok e1(1) by simp
  then have "fst (snd (pad_row ldata sp tp ms mt e1)) = fst (ldata ! fst (pad_row ldata sp tp ms mt e1))"
    using e1(2) by (simp add: pad_row_def row_ok_def case_prod_beta)
  moreover have "pad_row ldata sp tp ms mt e1 \<in> set batch" using e1(1) batch by simp
  ultimately have a1: "\<exists>tr \<in> set batch. fst (snd tr) = fst (ldata ! fst tr)" by blast
  from at2 obtain e2 where e2: "e2 \<in> set g" "snd (snd e2) = mt" by blast
  have "row_ok ldata e2" using ok e2(1) by simp
  then have "snd (snd (pad_row ldata sp tp ms mt e2)) = snd (ldata ! fst (pad_row ldata sp tp ms mt e2))"
    using e2(2) by (simp add: pad_row_def row_ok_def case_prod_beta)
  moreover have "pad_row ldata sp tp ms mt e2 \<in> set batch" using e2(1) batch by simp
  ultimately have a2: "\<exists>tr \<in> set batch. snd (snd tr) = snd (ldata ! fst tr)" by blast
  have n: "batch \<noteq> []" using ne batch by simp
  have all: "\<forall>tr \<in> set batch.
             fst tr < length ldata
           \<and> length (fst (snd tr)) = ms \<and> length (snd (snd tr)) = mt
           \<and> fst (snd tr) = fst (ldata ! fst tr) @ replicate (ms - length (fst (ldata ! fst tr))) sp
           \<and> snd (snd tr) = snd (ldata ! fst tr) @ replicate (mt - length (snd (ldata ! fst tr))) tp"
    using row by (intro ballI)
  show ?thesis
    by (rule conjI [OF n], rule exI [of _ ms], rule exI [of _ mt], rule conjI [OF all conjI [OF a1 a2]])
qed

lemma make_batches_padded:
  assumes mk: "make_batches ldata shard_size batch_size sh1 sh2 = Inr batches"
    and sh1: "\<And>xs. mset (sh1 xs) = mset xs" and sh2: "\<And>xs. mset (sh2 xs) = mset xs"
    and batch: "batch \<in> set batches"
  shows "batch \<noteq> []
    \<and> (\<exists>ms mt.
         (\<forall>tr \<in> set batch.
             fst tr < length ldata
           \<and> length (fst (snd tr)) = ms \<and> length (snd (snd tr)) = mt
           \<and> fst (snd tr) = fst (ldata ! fst tr) @ replicate (ms - length (fst (ldata ! fst tr))) idx_pad
           \<and> snd (snd tr) = snd (ldata ! fst tr) @ replicate (mt - length (snd (ldata ! fst tr))) idx_pad)
       \<and> (\<exists>tr \<in> set batch. fst (snd tr) = fst (ldata ! fst tr))
       \<and> (\<exists>tr \<in> set batch. snd (snd tr) = snd (ldata ! fst tr)))"
proof -
  define idata0 where
    "idata0 = map (\<lambda>(i, (src, tgt)). (i, length src, length tgt)) (enumerate 0 ldata)"
  define idata where "idata = sh1 idata0"
  define ss where "ss = (if shard_size = 0 then int (length idata) else shard_size)"
  from mk obtain shards bs where
    sl: "slices idata ss = Inr shards" and
    bb: "build_batches (map sort_shard shards) batch_size ldata idx_pad idx_pad = Inr bs" and
    res: "batches = sh2 bs"
    unfolding make_batches_def Let_def idata0_def [symmetric] idata_def [symmetric] ss_def [symmetric]
    by (auto split: sum.splits)
  have "set (sh2 bs) = set bs" using sh2 [of bs] by (rule mset_eq_setD)
  then have "batch \<in> set bs" using batch res by simp
  from build_batches_Inr [OF bb this] obtain shard groups g where
    shard: "shard \<in> set shards" and
    gr: "slices (sort_shard shard) batch_size = Inr groups" and
    g: "g \<in> set groups" and
    b: "build_batch g ldata idx_pad idx_pad = Inr batch"
    by auto
  have gne: "g \<noteq> []" and gsub: "set g \<subseteq> set (sort_shard shard)"
    using slices_Inr [OF gr g] by simp_all
  have "set shard \<subseteq> set idata" using slices_Inr(2) [OF sl shard] .
  moreover have "set idata = set idata0" unfolding idata_def using sh1 [of idata0] by (rule mset_eq_setD)
  ultimately have "set g \<subseteq> set idata0" using gsub by (simp add: sort_shard_set)
  then have ok: "\<forall>ex \<in> set g. row_ok ldata ex"
    using idata_rows_ok [of _ ldata] unfolding idata0_def by blast
  from build_batch_padded [OF b ok gne] show ?thesis .
qed

text \<open>
  C4. Every batch that the constructor builds (no cache, the two shuffles being
  permutations) is non-empty; all its source sequences have one length and all its target
  sequences one length; each is the encoded line at the recorded position followed only by
  pad indices; and one source and one target sequence of the batch carry no padding, so the
  two lengths are the maxima over the batch.
\<close>

theorem Dataset_batches_padded:
  assumes init: "Dataset_init None fvocab_src fvocab_tgt ftoken_src ftoken_tgt ftxt_src ftxt_tgt
                   shard_size batch_size shuffle_idata shuffle_batches = Inr batches"
    and sh1: "\<And>xs. mset (shuffle_idata xs) = mset xs"
    and sh2: "\<And>xs. mset (shuffle_batches xs) = mset xs"
  shows "\<exists>vocab_src vocab_tgt.
      Vocab_init (Some fvocab_src) = Inr vocab_src
    \<and> Vocab_init (Some fvocab_tgt) = Inr vocab_tgt
    \<and> length ftxt_tgt = length ftxt_src
    \<and> (\<forall>batch \<in> set batches. batch \<noteq> []
        \<and> (\<exists>max_src_len max_tgt_len.
             (\<forall>(pos, src, tgt) \<in> set batch.
                 pos < length ftxt_src
               \<and> length src = max_src_len \<and> length tgt = max_tgt_len
               \<and> src = encode_line vocab_src ftoken_src (ftxt_src ! pos)
                         @ replicate (max_src_len
                             - length (encode_line vocab_src ftoken_src (ftxt_src ! pos))) idx_pad
               \<and> tgt = encode_line vocab_tgt ftoken_tgt (ftxt_tgt ! pos)
                         @ replicate (max_tgt_len
                             - length (encode_line vocab_tgt ftoken_tgt (ftxt_tgt ! pos))) idx_pad)
           \<and> (\<exists>(pos, src, tgt) \<in> set batch.
                 src = encode_line vocab_src ftoken_src (ftxt_src ! pos))
           \<and> (\<exists>(pos, src, tgt) \<in> set batch.
                 tgt = encode_line vocab_tgt ftoken_tgt (ftxt_tgt ! pos))))"
proof -
  from init obtain vocab_src srcs vocab_tgt tgts where
    vs: "Vocab_init (Some fvocab_src) = Inr vocab_src" and
    rs: "read_src vocab_src ftoken_src ftxt_src = Inr srcs" and
    vt: "Vocab_init (Some fvocab_tgt) = Inr vocab_tgt" and
    rt: "read_tgt vocab_tgt ftoken_tgt (length srcs) ftxt_tgt = Inr tgts" and
    mk: "make_batches (zip srcs tgts) shard_size batch_size shuffle_idata shuffle_batches
           = Inr batches"
    unfolding Dataset_init_def by (auto split: sum.splits)
  let ?ldata = "zip srcs tgts"
  have srcs: "srcs = map (encode_line vocab_src ftoken_src) ftxt_src"
    using read_src_Inr [OF rs] by simp
  have tgts: "tgts = map (encode_line vocab_tgt ftoken_tgt) ftxt_tgt"
    using read_tgt_Inr(1) [OF rt] .
  have len: "length ftxt_tgt = length ftxt_src"
    using read_tgt_Inr(2) [OF rt] srcs by simp
  have ll: "length ?ldata = length ftxt_src" using srcs tgts len by simp
  have nth: "?ldata ! pos = (encode_line vocab_src ftoken_src (ftxt_src ! pos),
                             encode_line vocab_tgt ftoken_tgt (ftxt_tgt ! pos))"
    if "pos < length ftxt_src" for pos
    using that srcs tgts len by simp
  have each: "batch \<noteq> []
        \<and> (\<exists>max_src_len max_tgt_len.
             (\<forall>(pos, src, tgt) \<in> set batch.
                 pos < length ftxt_src
               \<and> length src = max_src_len \<and> length tgt = max_tgt_len
               \<and> src = encode_line vocab_src ftoken_src (ftxt_src ! pos)
                         @ replicate (max_src_len
                             - length (encode_line vocab_src ftoken_src (ftxt_src ! pos))) idx_pad
               \<and> tgt = encode_line vocab_tgt ftoken_tgt (ftxt_tgt ! pos)
                         @ replicate (max_tgt_len
                             - length (encode_line vocab_tgt ftoken_tgt (ftxt_tgt ! pos))) idx_pad)
           \<and> (\<exists>(pos, src, tgt) \<in> set batch.
                 src = encode_line vocab_src ftoken_src (ftxt_src ! pos))
           \<and> (\<exists>(pos, src, tgt) \<in> set batch.
                 tgt = encode_line vocab_tgt ftoken_tgt (ftxt_tgt ! pos)))"
    if batch: "batch \<in> set batches" for batch
  proof -
    from make_batches_padded [OF mk sh1 sh2 batch] obtain ms mt where
      ne: "batch \<noteq> []" and
      rows: "\<forall>tr \<in> set batch.
             fst tr < length ?ldata
           \<and> length (fst (snd tr)) = ms \<and> length (snd (snd tr)) = mt
           \<and> fst (snd tr) = fst (?ldata ! fst tr) @ replicate (ms - length (fst (?ldata ! fst tr))) idx_pad
           \<and> snd (snd tr) = snd (?ldata ! fst tr) @ replicate (mt - length (snd (?ldata ! fst tr))) idx_pad" and
      a1: "\<exists>tr \<in> set batch. fst (snd tr) = fst (?ldata ! fst tr)" and
      a2: "\<exists>tr \<in> set batch. snd (snd tr) = snd (?ldata ! fst tr)"
      by blast
    have in_range: "fst tr < length ftxt_src" if "tr \<in> set batch" for tr
    proof -
      have "fst tr < length ?ldata" using rows that by blast
      then show ?thesis by (simp only: ll)
    qed
    have r: "\<forall>(pos, src, tgt) \<in> set batch.
                 pos < length ftxt_src
               \<and> length src = ms \<and> length tgt = mt
               \<and> src = encode_line vocab_src ftoken_src (ftxt_src ! pos)
                         @ replicate (ms - length (encode_line vocab_src ftoken_src (ftxt_src ! pos))) idx_pad
               \<and> tgt = encode_line vocab_tgt ftoken_tgt (ftxt_tgt ! pos)
                         @ replicate (mt - length (encode_line vocab_tgt ftoken_tgt (ftxt_tgt ! pos))) idx_pad"
    proof (intro ballI)
      fix tr assume tr: "tr \<in> set batch"
      have i: "fst tr < length ftxt_src" using in_range [OF tr] .
      show "case tr of (pos, src, tgt) \<Rightarrow>
                 pos < length ftxt_src
               \<and> length src = ms \<and> length tgt = mt
               \<and> src = encode_line vocab_src ftoken_src (ftxt_src ! pos)
                         @ replicate (ms - length (encode_line vocab_src ftoken_src (ftxt_src ! pos))) idx_pad
               \<and> tgt = encode_line vocab_tgt ftoken_tgt (ftxt_tgt ! pos)
                         @ replicate (mt - length (encode_line vocab_tgt ftoken_tgt (ftxt_tgt ! pos))) idx_pad"
      proof -
        have e: "length (fst (snd tr)) = ms" "length (snd (snd tr)) = mt"
          "fst (snd tr) = fst (?ldata ! fst tr) @ replicate (ms - length (fst (?ldata ! fst tr))) idx_pad"
          "snd (snd tr) = snd (?ldata ! fst tr) @ replicate (mt - length (snd (?ldata ! fst tr))) idx_pad"
          using rows tr by blast+
        have e3: "fst (snd tr) = encode_line vocab_src ftoken_src (ftxt_src ! fst tr)
              @ replicate (ms - length (encode_line vocab_src ftoken_src (ftxt_src ! fst tr))) idx_pad"
          using e(3) by (simp only: nth [OF i] fst_conv)
        have e4: "snd (snd tr) = encode_line vocab_tgt ftoken_tgt (ftxt_tgt ! fst tr)
              @ replicate (mt - length (encode_line vocab_tgt ftoken_tgt (ftxt_tgt ! fst tr))) idx_pad"
          using e(4) by (simp only: nth [OF i] snd_conv)
        show ?thesis unfolding case_prod_beta
          by (rule conjI [OF i conjI [OF e(1) conjI [OF e(2) conjI [OF e3 e4]]]])
      qed
    qed
    from a1 obtain t1 where t1: "t1 \<in> set batch" "fst (snd t1) = fst (?ldata ! fst t1)" by blast
    have "case t1 of (pos, src, tgt) \<Rightarrow> src = encode_line vocab_src ftoken_src (ftxt_src ! pos)"
      unfolding case_prod_beta using t1(2) by (simp only: nth [OF in_range [OF t1(1)]] fst_conv)
    then have b1: "\<exists>(pos, src, tgt) \<in> set batch.
                 src = encode_line vocab_src ftoken_src (ftxt_src ! pos)"
      using t1(1) by (rule rev_bexI [rotated])
    from a2 obtain t2 where t2: "t2 \<in> set batch" "snd (snd t2) = snd (?ldata ! fst t2)" by blast
    have "case t2 of (pos, src, tgt) \<Rightarrow> tgt = encode_line vocab_tgt ftoken_tgt (ftxt_tgt ! pos)"
      unfolding case_prod_beta using t2(2) by (simp only: nth [OF in_range [OF t2(1)]] snd_conv)
    then have b2: "\<exists>(pos, src, tgt) \<in> set batch.
                 tgt = encode_line vocab_tgt ftoken_tgt (ftxt_tgt ! pos)"
      using t2(1) by (rule rev_bexI [rotated])
    show ?thesis
      by (rule conjI [OF ne], rule exI [of _ ms], rule exI [of _ mt], rule conjI [OF r conjI [OF b1 b2]])
  qed
  then have all: "\<forall>batch \<in> set batches. batch \<noteq> []
        \<and> (\<exists>max_src_len max_tgt_len.
             (\<forall>(pos, src, tgt) \<in> set batch.
                 pos < length ftxt_src
               \<and> length src = max_src_len \<and> length tgt = max_tgt_len
               \<and> src = encode_line vocab_src ftoken_src (ftxt_src ! pos)
                         @ replicate (max_src_len
                             - length (encode_line vocab_src ftoken_src (ftxt_src ! pos))) idx_pad
               \<and> tgt = encode_line vocab_tgt ftoken_tgt (ftxt_tgt ! pos)
                         @ replicate (max_tgt_len
                             - length (encode_line vocab_tgt ftoken_tgt (ftxt_tgt ! pos))) idx_pad)
           \<and> (\<exists>(pos, src, tgt) \<in> set batch.
                 src = encode_line vocab_src ftoken_src (ftxt_src ! pos))
           \<and> (\<exists>(pos, src, tgt) \<in> set batch.
                 tgt = encode_line vocab_tgt ftoken_tgt (ftxt_tgt ! pos)))"
    by (intro ballI)
  show ?thesis
    by (rule exI [of _ vocab_src], rule exI [of _ vocab_tgt],
        rule conjI [OF vs conjI [OF vt conjI [OF len all]]])
qed

theorem Dataset_batches_padded_witness:
  "Dataset_init None (Some ex_vocab_file) (Some ex_vocab_file) space_tokenize space_tokenize
       ex_src_lines ex_tgt_lines 0 2 rev rev = Inr ex_batches
   \<and> (\<forall>xs :: example list. mset (rev xs) = mset xs)
   \<and> (\<forall>xs :: triple list list. mset (rev xs) = mset xs)
   \<and> (\<exists>vocab_src vocab_tgt.
      Vocab_init (Some (Some ex_vocab_file)) = Inr vocab_src
    \<and> Vocab_init (Some (Some ex_vocab_file)) = Inr vocab_tgt
    \<and> length ex_tgt_lines = length ex_src_lines
    \<and> (\<forall>batch \<in> set ex_batches. batch \<noteq> []
        \<and> (\<exists>max_src_len max_tgt_len.
             (\<forall>(pos, src, tgt) \<in> set batch.
                 pos < length ex_src_lines
               \<and> length src = max_src_len \<and> length tgt = max_tgt_len
               \<and> src = encode_line vocab_src space_tokenize (ex_src_lines ! pos)
                         @ replicate (max_src_len
                             - length (encode_line vocab_src space_tokenize (ex_src_lines ! pos))) idx_pad
               \<and> tgt = encode_line vocab_tgt space_tokenize (ex_tgt_lines ! pos)
                         @ replicate (max_tgt_len
                             - length (encode_line vocab_tgt space_tokenize (ex_tgt_lines ! pos))) idx_pad)
           \<and> (\<exists>(pos, src, tgt) \<in> set batch.
                 src = encode_line vocab_src space_tokenize (ex_src_lines ! pos))
           \<and> (\<exists>(pos, src, tgt) \<in> set batch.
                 tgt = encode_line vocab_tgt space_tokenize (ex_tgt_lines ! pos)))))"
proof -
  have h: "Dataset_init None (Some ex_vocab_file) (Some ex_vocab_file) space_tokenize space_tokenize
       ex_src_lines ex_tgt_lines 0 2 rev rev = Inr ex_batches"
    by code_simp
  have p1: "mset (rev xs) = mset xs" for xs :: "example list" by simp
  have p2: "mset (rev xs) = mset xs" for xs :: "triple list list" by simp
  have q1: "\<forall>xs :: example list. mset (rev xs) = mset xs" by simp
  have q2: "\<forall>xs :: triple list list. mset (rev xs) = mset xs" by simp
  note c = Dataset_batches_padded [OF h p1 p2]
  show ?thesis by (rule conjI [OF h conjI [OF q1 conjI [OF q2 c]]])
qed

text \<open>
  C5 at its failing input. With both text files empty the constructor does not return an
  empty collection: the \<open>logging.info\<close> call after the source loop raises
  \<open>UnboundLocalError\<close>, whatever the shard size.
\<close>

theorem Dataset_init_empty_input:
  "Dataset_init None (Some ex_vocab_file) (Some ex_vocab_file) space_tokenize space_tokenize
       [] [] 0 1 id id = Inl UnboundLocalError
   \<and> Dataset_init None (Some ex_vocab_file) (Some ex_vocab_file) space_tokenize space_tokenize
       [] [] 5 1 id id = Inl UnboundLocalError"
  by code_simp

lemma Dataset_init_no_source_lines:
  "Dataset_init None fvocab_src fvocab_tgt ftoken_src ftoken_tgt [] ftxt_tgt
       shard_size batch_size shuffle_idata shuffle_batches
     = (case Vocab_init (Some fvocab_src) of Inl e \<Rightarrow> Inl e | Inr vocab \<Rightarrow> Inl UnboundLocalError)"
  by (simp add: Dataset_init_def read_src_def split: sum.splits)

lemma spec_scenario_one_example:
  "Dataset_init None (Some ex_vocab_file) (Some ex_vocab_file) space_tokenize space_tokenize
     [''a b'' @ [CHR 0x0A]] [''b a'' @ [CHR 0x0A]] 0 1 id id
     = Inr [[(0, [2, 5, 6, 3], [2, 6, 5, 3])]]"
  by code_simp

section \<open>The decoder layer and its attention module\<close>

text \<open>
  C9. A forward pass of a decoder layer calls an attention module twice, with the target
  mask on the layer's own normalised input and with the source mask on the encoder output,
  and both calls go to the one module \<open>multihead_attn\<close> of the layer, so the query, key,
  value and output projections of the two calls are the same. A constructed layer owns 18
  distinct parameter tensors: those of two feed-forward maps, four attention projections
  and three normalisations.
\<close>

theorem Decoder_one_attention_module:
  "\<exists>z c1 c2.
      Decoder_forward self z_src tgt msk_src msk_tgt [] = (z, [c1, c2])
    \<and> called c1 = multihead_attn self \<and> called c2 = multihead_attn self
    \<and> arg_q c1 = Norm (norm_att1 self) tgt \<and> arg_k c1 = arg_q c1 \<and> arg_v c1 = arg_q c1
    \<and> arg_msk c1 = msk_tgt
    \<and> arg_k c2 = z_src \<and> arg_v c2 = z_src \<and> arg_msk c2 = msk_src
    \<and> arg_q c2 = Norm (norm_att2 self) (Plus (Attn (called c1) (arg_q c1) (arg_k c1) (arg_v c1) msk_tgt) tgt)
    \<and> WQ (called c1) = WQ (called c2) \<and> WK (called c1) = WK (called c2)
    \<and> WV (called c1) = WV (called c2) \<and> WO (called c1) = WO (called c2)
    \<and> length (parameters_Decoder (fst (Decoder_init ff_dim n_heads emb_dim qk_dim v_dim dropout fresh))) = 18
    \<and> distinct (parameters_Decoder (fst (Decoder_init ff_dim n_heads emb_dim qk_dim v_dim dropout fresh)))"
  by (simp add: Decoder_forward_def MultiHead_Attn_call_def Decoder_init_def FeedForward_init_def
      MultiHead_Attn_init_def LayerNorm_init_def Linear_init_def parameters_Decoder_def
      parameters_MultiHead_Attn_def Let_def)

section \<open>The positional table\<close>

text \<open>
  What \<open>forward\<close> computes for a batch no longer than the table: every vector of example
  \<open>b\<close> receives row \<open>b\<close> of the table, at whatever position of the sequence it stands.
\<close>

lemma collect_all_Inr:
  "(\<And>p. p \<in> set ps \<Longrightarrow> f p = Inr (g p)) \<Longrightarrow> collect (map f ps) = Inr (map g ps)"
  by (induction ps) simp_all

lemma broadcast_vectors:
  "length v = length r \<Longrightarrow> broadcast (\<lambda>u w. Inr (u + w)) v r = Inr (map2 (+) v (r :: real list))"
proof -
  assume l: "length v = length r"
  have "collect (map (\<lambda>(u, w). Inr (u + w)) (zip v r)) = Inr (map (\<lambda>(u, w). u + w) (zip v r))"
    by (rule collect_all_Inr) auto
  then show ?thesis using l by (simp add: broadcast_def)
qed

lemma broadcast_rows:
  assumes "\<And>v. v \<in> set m \<Longrightarrow> length v = length r"
  shows "broadcast (broadcast (\<lambda>u w. Inr (u + w))) m [r]
           = Inr (map (\<lambda>v. map2 (+) v (r :: real list)) m)"
proof (cases "length m = 1")
  case True
  then obtain v where m: "m = [v]" by (cases m) auto
  then have "length v = length r" using assms by simp
  then have bv: "broadcast (\<lambda>u w. Inr (u + w)) v r = Inr (map2 (+) v r)"
    by (rule broadcast_vectors)
  show ?thesis unfolding m broadcast_def [of "broadcast (\<lambda>u w. Inr (u + w))"]
    using bv by simp
next
  case False
  have "collect (map (\<lambda>u. broadcast (\<lambda>u w. Inr (u + w)) u r) m)
          = Inr (map (\<lambda>v. map2 (+) v r) m)"
    by (rule collect_all_Inr) (simp add: assms broadcast_vectors)
  then show ?thesis using False by (simp add: broadcast_def)
qed

lemma forward_adds_row_of_example:
  assumes init: "AddPositionalEncoding_init emb_dim max_len = Inr pe"
    and len: "length x \<le> max_len"
    and dim: "\<And>m v. m \<in> set x \<Longrightarrow> v \<in> set m \<Longrightarrow> length v = emb_dim"
  shows "AddPositionalEncoding_forward pe dropout x
           = Inr (dropout (map (\<lambda>(b, m). map (\<lambda>v. map2 (+) v (map (pe_entry emb_dim b) [0..<emb_dim])) m)
                               (enumerate 0 x)))"
proof -
  let ?row = "\<lambda>b. map (pe_entry emb_dim b) [0..<emb_dim]"
  have pe: "pe = map (\<lambda>pos. [?row pos]) [0..<max_len]"
    using init by (simp add: AddPositionalEncoding_init_def split: if_splits)
  have tk: "take (length x) pe = map (\<lambda>pos. [?row pos]) [0..<length x]"
    using len by (simp add: pe take_map take_upt)
  have m2: "map2 (broadcast (broadcast (\<lambda>u w. Inr (u + w)))) x (map (\<lambda>pos. [?row pos]) [0..<length x])
             = map (\<lambda>p. broadcast (broadcast (\<lambda>u w. Inr (u + w))) (snd p) [?row (fst p)])
                   (enumerate 0 x)"
    by (rule nth_equalityI) (simp_all add: nth_enumerate_eq)
  have "collect (map (\<lambda>p. broadcast (broadcast (\<lambda>u w. Inr (u + w))) (snd p) [?row (fst p)]) (enumerate 0 x))
          = Inr (map (\<lambda>(b, m). map (\<lambda>v. map2 (+) v (?row b)) m) (enumerate 0 x))"
  proof (rule collect_all_Inr)
    fix p assume p: "p \<in> set (enumerate 0 x)"
    obtain b m where bm: "p = (b, m)" by (cases p)
    then have "m \<in> set x" using p by (auto simp: in_set_enumerate_eq)
    then have "\<And>v. v \<in> set m \<Longrightarrow> length v = length (?row b)" using dim by simp
    then have "broadcast (broadcast (\<lambda>u w. Inr (u + w))) m [?row b]
                 = Inr (map (\<lambda>v. map2 (+) v (?row b)) m)"
      by (rule broadcast_rows)
    then show "broadcast (broadcast (\<lambda>u w. Inr (u + w))) (snd p) [?row (fst p)]
                 = Inr (case p of (b, m) \<Rightarrow> map (\<lambda>v. map2 (+) v (?row b)) m)"
      using bm by simp
  qed
  then have "add3 x (take (length x) pe)
          = Inr (map (\<lambda>(b, m). map (\<lambda>v. map2 (+) v (?row b)) m) (enumerate 0 x))"
    unfolding add3_def tk broadcast_def [of _ x] by (simp only: m2 length_map length_upt diff_zero refl if_True)
  then show ?thesis by (simp add: AddPositionalEncoding_forward_def)
qed

lemma forward_ignores_position:
  assumes init: "AddPositionalEncoding_init emb_dim max_len = Inr pe"
    and len: "length x \<le> max_len"
    and dim: "\<And>m v. m \<in> set x \<Longrightarrow> v \<in> set m \<Longrightarrow> length v = emb_dim"
    and b: "b < length x" and p: "p < length (x ! b)"
  shows "\<exists>y. AddPositionalEncoding_forward pe id x = Inr y
           \<and> y ! b ! p = map2 (+) (x ! b ! p) (map (pe_entry emb_dim b) [0..<emb_dim])"
  using forward_adds_row_of_example [OF init len dim, where dropout=id] b p
  by (simp add: nth_enumerate_eq)

text \<open>
  C1 at its failing input. The network calls \<open>forward\<close> on embeddings of shape
  \<open>[bs, ls, ed]\<close>, so \<open>x.size(0)\<close> is the batch size and the table row added is chosen by
  the index of the example in the batch. With one example of two positions both positions
  receive row 0, \<open>(sin 0, cos 0) = (0, 1)\<close>, where the claim has \<open>(sin 1, cos 1)\<close> at position
  1; with two examples of one position the second example receives row 1 at its position 0.
\<close>

theorem positional_table_indexed_by_batch:
  "\<exists>pe. AddPositionalEncoding_init 2 5000 = Inr pe
     \<and> AddPositionalEncoding_forward pe id [[[0, 0], [0, 0]]] = Inr [[[0, 1], [0, 1]]]
     \<and> [sin (1 * div_term 2 0), cos (1 * div_term 2 0)] \<noteq> [0, 1]
     \<and> AddPositionalEncoding_forward pe id [[[0, 0]], [[0, 0]]]
          = Inr [[[0, 1]], [[sin 1, cos 1]]]"
proof -
  have t1: "take (Suc 0) [0..<5000] = [0..<1]" by (simp add: take_upt)
  have "take 2 [0..<5000] = [0..<0 + 2]" by (rule take_upt) simp
  moreover have "[0..<0 + 2] = [0, Suc 0]" by (simp add: numeral_2_eq_2)
  ultimately have t2: "take 2 [0..<5000] = [0, Suc 0]" by (simp only:)
  have u2: "[0..<2] = [0, Suc 0]" by (simp add: numeral_2_eq_2)
  have d: "div_term 2 0 = 1" by (simp add: div_term_def)
  have "sin (1::real) \<noteq> 0"
  proof -
    have "0 < sin (1::real)" by (rule sin_gt_zero_02) simp_all
    then show ?thesis by simp
  qed
  then show ?thesis
    by (simp add: AddPositionalEncoding_init_def AddPositionalEncoding_forward_def take_map t1 t2 u2
        pe_entry_def d add3_def broadcast_def)
qed

section \<open>The training loop at max_steps\<close>

text \<open>
  C2 at its failing input. With \<open>max_steps = 3\<close> and two batches per epoch the loop reaches
  the limit in its second epoch, runs the final validation and then raises
  \<open>AttributeError\<close>: no checkpoint of step 3 is saved. The branch of \<open>max_epochs\<close> reads
  \<open>self.optScheduler\<close> and does save.
\<close>

theorem learn_max_steps_raises:
  "learn 2 ex_learning 2 True 0
     = Some (Raised AttributeError, 3, [Validated 2, Saved 2, Validated 3])
   \<and> learn 1 (ex_learning\<lparr>max_steps := 0, max_epochs := 1\<rparr>) 2 True 0
     = Some (Returned, 2, [Validated 2, Saved 2, Validated 2, Saved 2])"
  by code_simp

lemma batch_step_at_max_steps:
  "max_steps self \<noteq> 0 \<Longrightarrow> max_steps self \<le> step + 1 \<Longrightarrow>
     fst (batch_step self validset (step, events)) = Some (Raised AttributeError)"
  by (simp add: batch_step_def getattr_def Learning_attributes_def optScheduler_step_def Let_def)

end
